theory Spec2Isabelle
  imports Main "HOL-Library.Word"
begin

unbundle bit_operations_syntax

section \<open>The MC3000 USB interface library (mc3000.py)\<close>

text \<open>
  A shallow embedding of the protocol code of \<^verbatim>\<open>mc3000.py\<close>. Python integers are
  \<open>int\<close>, a \<^verbatim>\<open>bytes\<close> object is a list of 8-bit words, a raised exception is the
  \<open>Inl\<close> branch of a sum, and the \<^verbatim>\<open>MC3000\<close> object with its USB device is a
  record that is passed through every method and returned updated.
\<close>

subsection \<open>Bytes, exceptions and indexing\<close>

type_synonym byte = "8 word"
type_synonym bytes = "byte list"

text \<open>
  The exceptions the modelled code can raise: \<^verbatim>\<open>IndexError\<close> (indexing bytes or a
  tuple out of range), \<^verbatim>\<open>KeyError\<close> (a dict lookup of a missing key),
  \<^verbatim>\<open>struct.error\<close> (\<^verbatim>\<open>pack\<close> or \<^verbatim>\<open>unpack\<close>), a USB error of
  the transport, and the \<^verbatim>\<open>Exception('Checksum error in device data packet')\<close> of
  \<^verbatim>\<open>get_machine_info\<close>.
\<close>

datatype error = IndexError | KeyError | StructError | USBError | ChecksumError

text \<open>Python's \<^verbatim>\<open>xs[i]\<close> on a sequence: a negative index counts from the end.\<close>

definition getitem :: "'a list \<Rightarrow> int \<Rightarrow> error + 'a" where
  "getitem xs i =
     (if 0 \<le> i \<and> i < int (length xs) then Inr (xs ! nat i)
      else if i < 0 \<and> - int (length xs) \<le> i then Inr (xs ! nat (int (length xs) + i))
      else Inl IndexError)"

text \<open>Indexing a \<^verbatim>\<open>bytes\<close> object gives an integer in 0..255.\<close>

definition getbyte :: "bytes \<Rightarrow> int \<Rightarrow> error + int" where
  "getbyte data i = (case getitem data i of Inl e \<Rightarrow> Inl e | Inr b \<Rightarrow> Inr (uint b))"

text \<open>Python's \<^verbatim>\<open>d[k]\<close> on a dict.\<close>

definition lookup :: "('k \<Rightarrow> 'v option) \<Rightarrow> 'k \<Rightarrow> error + 'v" where
  "lookup d k = (case d k of Some v \<Rightarrow> Inr v | None \<Rightarrow> Inl KeyError)"

subsection \<open>Constants and lookup tables\<close>

definition BATTERY_MODE :: "int \<Rightarrow> string option" where
  "BATTERY_MODE = map_of
     [(0, ''Charging''), (1, ''Refreshing''), (2, ''Storing''), (3, ''Discharging''),
      (4, ''Cycling'')]"

definition BATTERY_TYPE :: "int \<Rightarrow> string option" where
  "BATTERY_TYPE = map_of
     [(0, ''LiIon''), (1, ''LiFe''), (2, ''LiHV''), (3, ''NiMH''), (4, ''NiCd''),
      (5, ''NiZn''), (6, ''Eneloop'')]"

definition CYCLE_MODE :: "int \<Rightarrow> string option" where
  "CYCLE_MODE = map_of [(0, ''C>D''), (1, ''C>D>C''), (2, ''D>C''), (3, ''D>C>C'')]"

text \<open>The two-entry tuple of temperature units; the degree sign is the character 0xB0.\<close>

definition TEM_UNIT :: "string list" where
  "TEM_UNIT = [[CHR 0xB0, CHR ''C''], [CHR 0xB0, CHR ''F'']]"

definition CMD_PACKET_HEADER :: bytes where
  "CMD_PACKET_HEADER = [0x0f, 0x04]"

definition CMD_PACKET_TAIL :: bytes where
  "CMD_PACKET_TAIL = [0xff, 0xff]"

definition CMD_READ_PROGRESS_DATA :: bytes where
  "CMD_READ_PROGRESS_DATA = [0x55]"

definition CMD_READ_CHARGER_DATA :: bytes where
  "CMD_READ_CHARGER_DATA = [0x5f]"

subsection \<open>The records\<close>

text \<open>
  The named tuples, with each field at the type it has once the \<^verbatim>\<open>_replace\<close> calls
  of the decoder have run. \<open>core_type\<close> keeps the six raw bytes: the source decodes them
  as UTF-8 with \<^verbatim>\<open>errors='replace'\<close>, which never raises, and nothing below reads the
  decoded text.
\<close>

record MachineInfo =
  Sys_Mem1 :: int
  Sys_Mem2 :: int
  Sys_Mem3 :: int
  Sys_Mem4 :: int
  Sys_Advance :: bool
  Sys_tUnit :: string
  Sys_Buzzer_Tone :: int
  Sys_Life_Hide :: bool
  Sys_LiHv_Hide :: bool
  Sys_Eneloop_Hide :: bool
  Sys_NiZn_Hide :: bool
  Sys_Lcd_time :: int
  Sys_Min_Input :: int
  core_type :: bytes
  upgrade_type :: int
  is_encrypted :: bool
  customer_id :: int
  language_id :: int
  software_version_hi :: int
  software_version_lo :: int
  hardware_version :: int
  reserved :: int
  checksum :: int
  software_version :: string
  machine_id :: string

record ProgressInfo =
  slot :: int
  type :: int
  status :: int
  work :: int
  work_time :: int
  voltage :: int
  current :: int
  caps :: int
  bat_tem :: int
  inner_resistance :: int
  caps_decimal :: int
  checksum :: int
  dcaps :: int

record Battery =
  slot :: int
  work :: int
  type :: string
  mode :: string
  caps :: int
  cur :: int
  dCur :: int
  cut_volt :: int
  end_volt :: int
  end_cur :: int
  end_dcur :: int
  cycle_count :: int
  cycle_delay :: int
  cycle_mode :: string
  peak_sense :: int
  trickle :: int
  hold_volt :: int
  cut_temp :: int
  cut_time :: int
  tem_unit :: string
  checksum :: int

text \<open>
  The \<^verbatim>\<open>MC3000\<close> object. The USB device is the log of the packets written to the OUT
  endpoint (oldest first) and the queue of the byte strings that the coming reads of the
  IN endpoint return; \<open>machine_info\<close> is the attribute of that name, \<open>None\<close> until
  \<^verbatim>\<open>get_machine_info\<close> has stored a record.
\<close>

record MC3000 =
  sent :: "bytes list"
  pending :: "bytes list"
  machine_info :: "MachineInfo option"

subsection \<open>struct: the format characters the code uses\<close>

text \<open>\<^verbatim>\<open>B\<close>: an unsigned byte.\<close>

definition unpack_B :: "bytes \<Rightarrow> nat \<Rightarrow> int" where
  "unpack_B data off = uint (data ! off)"

text \<open>\<^verbatim>\<open>b\<close>: a signed byte.\<close>

definition unpack_b :: "bytes \<Rightarrow> nat \<Rightarrow> int" where
  "unpack_b data off = sint (data ! off)"

text \<open>\<^verbatim>\<open>>h\<close>: a big-endian signed 16-bit integer.\<close>

definition unpack_h :: "bytes \<Rightarrow> nat \<Rightarrow> int" where
  "unpack_h data off =
     (let v = 256 * uint (data ! off) + uint (data ! (off + 1))
      in if v \<ge> 32768 then v - 65536 else v)"

text \<open>\<^verbatim>\<open>b\<close> in \<^verbatim>\<open>pack\<close>: the argument has to be in -128..127.\<close>

definition pack_b :: "int \<Rightarrow> error + byte" where
  "pack_b v = (if -128 \<le> v \<and> v \<le> 127 then Inr (word_of_int v) else Inl StructError)"

text \<open>\<^verbatim>\<open>c\<close> in \<^verbatim>\<open>pack\<close>: the argument has to be a bytes object of length 1.\<close>

definition pack_c :: "bytes \<Rightarrow> error + bytes" where
  "pack_c v = (if length v = 1 then Inr v else Inl StructError)"

text \<open>\<^verbatim>\<open>2s\<close> in \<^verbatim>\<open>pack\<close>: cut or padded with null bytes to two bytes.\<close>

definition pack_2s :: "bytes \<Rightarrow> bytes" where
  "pack_2s v = take 2 (v @ replicate 2 0)"

text \<open>
  \<^verbatim>\<open>pack('2scxbb2s', header, cmd, buffer, slotcmd, tail)\<close>: native mode, but every
  format character here has size and alignment 1, so the result has 2+1+1+1+1+2 bytes.
\<close>

definition pack_2scxbb2s :: "bytes \<Rightarrow> bytes \<Rightarrow> int \<Rightarrow> int \<Rightarrow> bytes \<Rightarrow> error + bytes" where
  "pack_2scxbb2s header cmd buffer slotcmd tail =
     (case pack_c cmd of Inl e \<Rightarrow> Inl e | Inr c \<Rightarrow>
     (case pack_b buffer of Inl e \<Rightarrow> Inl e | Inr b1 \<Rightarrow>
     (case pack_b slotcmd of Inl e \<Rightarrow> Inl e | Inr b2 \<Rightarrow>
        Inr (pack_2s header @ c @ [0] @ [b1] @ [b2] @ pack_2s tail))))"

text \<open>\<^verbatim>\<open>int.from_bytes(bs, byteorder='little')\<close>.\<close>

fun from_bytes_little :: "bytes \<Rightarrow> int" where
  "from_bytes_little [] = 0"
| "from_bytes_little (b # bs) = uint b + 256 * from_bytes_little bs"

subsection \<open>String formatting\<close>

definition hexdigit :: "nat \<Rightarrow> char" where
  "hexdigit d = ''0123456789ABCDEF'' ! d"

fun hex_upper :: "nat \<Rightarrow> string" where
  "hex_upper n = (if n < 16 then [hexdigit n] else hex_upper (n div 16) @ [hexdigit (n mod 16)])"

declare hex_upper.simps [simp del]

text \<open>\<^verbatim>\<open>'{:X}'.format(n)\<close>.\<close>

definition format_X :: "int \<Rightarrow> string" where
  "format_X n = (if n < 0 then CHR ''-'' # hex_upper (nat (- n)) else hex_upper (nat n))"

text \<open>\<^verbatim>\<open>'{s:{c}>{n}}'.format(s=s, n=n, c=c)\<close>: right-aligned in width \<open>n\<close>, filled with \<open>c\<close>.\<close>

definition format_rjust :: "string \<Rightarrow> nat \<Rightarrow> char \<Rightarrow> string" where
  "format_rjust s n c = replicate (n - length s) c @ s"

fun decimal :: "nat \<Rightarrow> string" where
  "decimal n = (if n < 10 then [hexdigit n] else decimal (n div 10) @ [hexdigit (n mod 10)])"

declare decimal.simps [simp del]

text \<open>
  \<^verbatim>\<open>'{:.2f}'.format(hi * 1.0 + lo * 1.0 / 100.0)\<close> for two unsigned bytes: the float
  is within rounding error of the two-decimal number \<open>hi + lo / 100\<close>, which is what the
  format prints, so the string is written here from the integer \<open>100 * hi + lo\<close>.
\<close>

definition format_version :: "int \<Rightarrow> int \<Rightarrow> string" where
  "format_version hi lo =
     (let v = nat (100 * hi + lo)
      in decimal (v div 100) @ ''.'' @ [hexdigit (v mod 100 div 10), hexdigit (v mod 10)])"

subsection \<open>The transport\<close>

text \<open>\<^verbatim>\<open>send_raw\<close>: writes the buffer to the device and returns the number of bytes.\<close>

definition send_raw :: "bytes \<Rightarrow> MC3000 \<Rightarrow> int \<times> MC3000" where
  "send_raw buffer self = (int (length buffer), self\<lparr>sent := sent self @ [buffer]\<rparr>)"

text \<open>\<^verbatim>\<open>read\<close>: the next response of the device; a read with nothing to come fails.\<close>

definition read :: "MC3000 \<Rightarrow> (error + bytes) \<times> MC3000" where
  "read self =
     (case pending self of
        [] \<Rightarrow> (Inl USBError, self)
      | r # rs \<Rightarrow> (Inr r, self\<lparr>pending := rs\<rparr>))"

subsection \<open>packet_checksum\<close>

fun packet_checksum_loop :: "bytes \<Rightarrow> nat list \<Rightarrow> int \<Rightarrow> error + int" where
  "packet_checksum_loop data_packet [] crc = Inr crc"
| "packet_checksum_loop data_packet (i # is) crc =
     (case getbyte data_packet (int i) of
        Inl e \<Rightarrow> Inl e
      | Inr b \<Rightarrow> packet_checksum_loop data_packet is ((crc + b) AND 0xff))"

definition packet_checksum :: "bytes \<Rightarrow> error + int" where
  "packet_checksum data_packet = packet_checksum_loop data_packet [0..<63] 0"

subsection \<open>send\<close>

definition send :: "bytes \<Rightarrow> int \<Rightarrow> MC3000 \<Rightarrow> (error + unit) \<times> MC3000" where
  "send cmd buffer self =
     (if cmd = CMD_READ_CHARGER_DATA then
        (let slotcmd = from_bytes_little cmd + buffer
         in case pack_2scxbb2s CMD_PACKET_HEADER cmd buffer slotcmd CMD_PACKET_TAIL of
              Inl e \<Rightarrow> (Inl e, self)
            | Inr cmd_packet \<Rightarrow> (Inr (), snd (send_raw cmd_packet self)))
      else if cmd = CMD_READ_PROGRESS_DATA then
        (let slotcmd = from_bytes_little cmd + buffer
         in case pack_2scxbb2s CMD_PACKET_HEADER cmd buffer slotcmd CMD_PACKET_TAIL of
              Inl e \<Rightarrow> (Inl e, self)
            | Inr cmd_packet \<Rightarrow> (Inr (), snd (send_raw cmd_packet self)))
      else (Inr (), self))"

subsection \<open>get_machine_info\<close>

text \<open>
  The loop over \<^verbatim>\<open>range(16)\<close> that builds \<^verbatim>\<open>crc\<close> and \<^verbatim>\<open>machine_id\<close>.
  Both statements of its body read \<^verbatim>\<open>response[16 + j]\<close>; the read is done once here.
\<close>

fun machine_id_loop :: "bytes \<Rightarrow> nat list \<Rightarrow> int \<Rightarrow> string \<Rightarrow> error + int \<times> string" where
  "machine_id_loop response [] crc mid = Inr (crc, mid)"
| "machine_id_loop response (j # js) crc mid =
     (case getbyte response (16 + int j) of
        Inl e \<Rightarrow> Inl e
      | Inr b \<Rightarrow>
          (let crc' = (if j < 15 then crc + b else crc);
               text2 = format_X b
           in machine_id_loop response js crc' (mid @ format_rjust text2 2 (CHR ''0''))))"

text \<open>
  \<^verbatim>\<open>unpack(MACHINE_INFO_STRUCT, data)\<close> with the format
  \<^verbatim>\<open>'>3xBBBBBBBBBBBBB6sBBhBBBBbB'\<close> (32 bytes), the construction of the named tuple
  with \<^verbatim>\<open>software_version = 0\<close> and the machine id, and the \<^verbatim>\<open>_replace\<close> calls
  of lines 169 to 178. The only one of them that can raise is the index into
  \<^verbatim>\<open>TEM_UNIT\<close>.
\<close>

definition unpack_machine_info :: "bytes \<Rightarrow> string \<Rightarrow> error + MachineInfo" where
  "unpack_machine_info data mid =
     (if length data \<noteq> 32 then Inl StructError
      else
        (case getitem TEM_UNIT (unpack_B data 8) of
           Inl e \<Rightarrow> Inl e
         | Inr unit \<Rightarrow>
             Inr \<lparr>Sys_Mem1 = unpack_B data 3,
                  Sys_Mem2 = unpack_B data 4,
                  Sys_Mem3 = unpack_B data 5,
                  Sys_Mem4 = unpack_B data 6,
                  Sys_Advance = (unpack_B data 7 = 1),
                  Sys_tUnit = unit,
                  Sys_Buzzer_Tone = unpack_B data 9,
                  Sys_Life_Hide = (unpack_B data 10 = 1),
                  Sys_LiHv_Hide = (unpack_B data 11 = 1),
                  Sys_Eneloop_Hide = (unpack_B data 12 = 1),
                  Sys_NiZn_Hide = (unpack_B data 13 = 1),
                  Sys_Lcd_time = unpack_B data 14,
                  Sys_Min_Input = unpack_B data 15,
                  core_type = take 6 (drop 16 data),
                  upgrade_type = unpack_B data 22,
                  is_encrypted = (unpack_B data 23 = 1),
                  customer_id = unpack_h data 24,
                  language_id = unpack_B data 26,
                  software_version_hi = unpack_B data 27,
                  software_version_lo = unpack_B data 28,
                  hardware_version = unpack_B data 29,
                  reserved = unpack_b data 30,
                  MachineInfo.checksum = unpack_B data 31,
                  software_version = format_version (unpack_B data 27) (unpack_B data 28),
                  machine_id = mid\<rparr>))"

definition get_machine_info :: "MC3000 \<Rightarrow> (error + MachineInfo) \<times> MC3000" where
  "get_machine_info self =
     (let packet = [0x0f, 0x04, 0x5a, 0x00, 0x04, 0x5e, 0xff, 0xff];
          self1 = snd (send_raw packet self)
      in case read self1 of
           (Inl e, self2) \<Rightarrow> (Inl e, self2)
         | (Inr response, self2) \<Rightarrow>
             (case machine_id_loop response [0..<16] 0 [] of
                Inl e \<Rightarrow> (Inl e, self2)
              | Inr (crc, mid) \<Rightarrow>
                  (case unpack_machine_info (take 32 response) mid of
                     Inl e \<Rightarrow> (Inl e, self2)
                   | Inr machine \<Rightarrow>
                       (let crc1 = (NOT crc) AND 0xff;
                            crc2 = crc1 + 1
                        in if \<not> (crc2 = MachineInfo.checksum machine)
                           then (Inl ChecksumError, self2)
                           else (Inr machine, self2\<lparr>machine_info := Some machine\<rparr>)))))"

subsection \<open>get_battery_data\<close>

text \<open>
  Lines 237 to 242: \<^verbatim>\<open>unpack(CHARGE_DATA_STRUCT, response)\<close> with the format
  \<^verbatim>\<open>'>xBBBBhhhhhhhBBBBBhBhB33xB'\<close> (64 bytes), the named tuple, and the four table
  lookups in the order of the source.
\<close>

definition unpack_battery :: "bytes \<Rightarrow> error + Battery" where
  "unpack_battery response =
     (if length response \<noteq> 64 then Inl StructError
      else
        (case lookup BATTERY_TYPE (unpack_B response 3) of Inl e \<Rightarrow> Inl e | Inr ty \<Rightarrow>
        (case lookup BATTERY_MODE (unpack_B response 4) of Inl e \<Rightarrow> Inl e | Inr md \<Rightarrow>
        (case lookup CYCLE_MODE (unpack_B response 21) of Inl e \<Rightarrow> Inl e | Inr cm \<Rightarrow>
        (case getitem TEM_UNIT (unpack_B response 29) of Inl e \<Rightarrow> Inl e | Inr tu \<Rightarrow>
           Inr \<lparr>Battery.slot = unpack_B response 1,
                Battery.work = unpack_B response 2,
                Battery.type = ty,
                mode = md,
                Battery.caps = unpack_h response 5,
                cur = unpack_h response 7,
                dCur = unpack_h response 9,
                cut_volt = unpack_h response 11,
                end_volt = unpack_h response 13,
                end_cur = unpack_h response 15,
                end_dcur = unpack_h response 17,
                cycle_count = unpack_B response 19,
                cycle_delay = unpack_B response 20,
                cycle_mode = cm,
                peak_sense = unpack_B response 22,
                trickle = unpack_B response 23,
                hold_volt = unpack_h response 24,
                cut_temp = unpack_B response 26,
                cut_time = unpack_h response 27,
                tem_unit = tu,
                Battery.checksum = unpack_B response 63\<rparr>)))))"

fun battery_loop :: "int list \<Rightarrow> Battery list \<Rightarrow> MC3000 \<Rightarrow> (error + Battery list) \<times> MC3000" where
  "battery_loop [] batteries self = (Inr batteries, self)"
| "battery_loop (s # slots) batteries self =
     (case send CMD_READ_CHARGER_DATA s self of
        (Inl e, self1) \<Rightarrow> (Inl e, self1)
      | (Inr _, self1) \<Rightarrow>
     (case read self1 of
        (Inl e, self2) \<Rightarrow> (Inl e, self2)
      | (Inr response, self2) \<Rightarrow>
     (case getbyte response (- 1) of
        Inl e \<Rightarrow> (Inl e, self2)
      | Inr last_byte \<Rightarrow>
     (case packet_checksum response of
        Inl e \<Rightarrow> (Inl e, self2)
      | Inr crc \<Rightarrow>
          if last_byte \<noteq> crc then battery_loop slots batteries self2
          else
            (case unpack_battery response of
               Inl e \<Rightarrow> (Inl e, self2)
             | Inr battery \<Rightarrow> battery_loop slots (batteries @ [battery]) self2)))))"

definition get_battery_data :: "MC3000 \<Rightarrow> (error + Battery list) \<times> MC3000" where
  "get_battery_data self = battery_loop [0, 1, 2, 3] [] self"

subsection \<open>get_charging_progress\<close>

text \<open>
  Lines 288 to 294: \<^verbatim>\<open>unpack(PROGRESS_STATUS_STRUCT, response)\<close> with the format
  \<^verbatim>\<open>'>xBBxBBhhhhhhxxxxxxB38xB'\<close> (64 bytes), the named tuple with
  \<^verbatim>\<open>dcaps = 0\<close>, and the three corrections.
\<close>

definition unpack_progress :: "bytes \<Rightarrow> error + ProgressInfo" where
  "unpack_progress response =
     (if length response \<noteq> 64 then Inl StructError
      else
        (let pinfo = \<lparr>ProgressInfo.slot = unpack_B response 1,
                      ProgressInfo.type = unpack_B response 2,
                      status = unpack_B response 4,
                      ProgressInfo.work = unpack_B response 5,
                      work_time = unpack_h response 6,
                      voltage = unpack_h response 8,
                      current = unpack_h response 10,
                      ProgressInfo.caps = unpack_h response 12,
                      bat_tem = unpack_h response 14,
                      inner_resistance = unpack_h response 16,
                      caps_decimal = unpack_B response 24,
                      ProgressInfo.checksum = unpack_B response 63,
                      dcaps = 0\<rparr>;
             pinfo1 = (if ProgressInfo.work pinfo = 2
                       then pinfo\<lparr>dcaps := ProgressInfo.caps pinfo\<rparr> else pinfo);
             pinfo2 = (if work_time pinfo1 > 0
                       then pinfo1\<lparr>work_time := work_time pinfo1 - 1\<rparr> else pinfo1);
             pinfo3 = pinfo2\<lparr>bat_tem := bat_tem pinfo2 AND 0x7fff\<rparr>
         in Inr pinfo3))"

fun progress_loop ::
  "int list \<Rightarrow> ProgressInfo list \<Rightarrow> MC3000 \<Rightarrow> (error + ProgressInfo list) \<times> MC3000" where
  "progress_loop [] batteries self = (Inr batteries, self)"
| "progress_loop (s # slots) batteries self =
     (case send CMD_READ_PROGRESS_DATA s self of
        (Inl e, self1) \<Rightarrow> (Inl e, self1)
      | (Inr _, self1) \<Rightarrow>
     (case read self1 of
        (Inl e, self2) \<Rightarrow> (Inl e, self2)
      | (Inr response, self2) \<Rightarrow>
     (case getbyte response (- 1) of
        Inl e \<Rightarrow> (Inl e, self2)
      | Inr last_byte \<Rightarrow>
     (case packet_checksum response of
        Inl e \<Rightarrow> (Inl e, self2)
      | Inr crc \<Rightarrow>
          if last_byte \<noteq> crc then progress_loop slots batteries self2
          else
            (case unpack_progress response of
               Inl e \<Rightarrow> (Inl e, self2)
             | Inr pinfo \<Rightarrow> progress_loop slots (batteries @ [pinfo]) self2)))))"

text \<open>The argument \<^verbatim>\<open>battery_slot\<close>: the literal \<^verbatim>\<open>'all'\<close> or one slot number.\<close>

datatype battery_slot = All | Slot int

definition get_charging_progress ::
  "battery_slot \<Rightarrow> MC3000 \<Rightarrow> (error + ProgressInfo list) \<times> MC3000" where
  "get_charging_progress battery_slot self =
     (let slots = (case battery_slot of All \<Rightarrow> [0, 1, 2, 3] | Slot s \<Rightarrow> [s])
      in progress_loop slots [] self)"

section \<open>Notions used in the statements\<close>

text \<open>
  The layout of a parameterized command: header, opcode, pad byte, slot, the byte made of
  opcode plus slot, tail.
\<close>

definition command_frame :: "byte \<Rightarrow> int \<Rightarrow> bytes" where
  "command_frame opcode s =
     [0x0f, 0x04, opcode, 0, word_of_int s, word_of_int (uint opcode + s), 0xff, 0xff]"

text \<open>The literal request that \<^verbatim>\<open>get_machine_info\<close> sends.\<close>

definition machine_info_request :: bytes where
  "machine_info_request = [0x0f, 0x04, 0x5a, 0x00, 0x04, 0x5e, 0xff, 0xff]"

text \<open>One byte as two uppercase hexadecimal digits, the high one first.\<close>

definition hex2 :: "byte \<Rightarrow> string" where
  "hex2 b = [hexdigit (unat b div 16), hexdigit (unat b mod 16)]"

text \<open>
  The machine-info checksum as the specification words it: the two's complement of the sum
  of the 15 bytes that come immediately before the identifier block, for an identifier block
  that starts at offset \<open>block\<close>.
\<close>

definition spec_info_checksum :: "nat \<Rightarrow> bytes \<Rightarrow> int" where
  "spec_info_checksum block response =
     ((NOT (sum_list (map uint (take 15 (drop (block - 15) response))))) AND 0xff) + 1"

text \<open>
  A response frame passes the generic check when its last byte is the sum of its first 63
  bytes modulo 256.
\<close>

definition checksum_ok :: "bytes \<Rightarrow> bool" where
  "checksum_ok r = (uint (last r) = sum_list (map uint (take 63 r)) mod 256)"

text \<open>
  A battery response carries a code without a mapping when its chemistry, mode or cycle-mode
  byte is not a key of the table, or its temperature-unit byte is not an index of the tuple.
\<close>

definition has_unmapped_code :: "bytes \<Rightarrow> bool" where
  "has_unmapped_code r =
     (BATTERY_TYPE (uint (r ! 3)) = None \<or> BATTERY_MODE (uint (r ! 4)) = None
      \<or> CYCLE_MODE (uint (r ! 21)) = None \<or> 2 \<le> uint (r ! 29))"

text \<open>A fresh object whose device will answer with the given responses.\<close>

definition device :: "bytes list \<Rightarrow> MC3000" where
  "device rs = \<lparr>sent = [], pending = rs, machine_info = None\<rparr>"

text \<open>
  Example frames of 64 bytes. A machine-info response that is zero except for the
  temperature-unit selector (offset 8), the first identifier byte (offset 16) and the
  checksum (offset 31):
\<close>

definition info_frame :: "byte \<Rightarrow> byte \<Rightarrow> byte \<Rightarrow> bytes" where
  "info_frame unit_code id0 chk =
     [0, 0, 0, 0, 0, 0, 0, 0, unit_code, 0, 0, 0, 0, 0, 0, 0,
      id0, 0, 0, 0, 0, 0, 0, 0, 0, 0, 0, 0, 0, 0, 0, chk,
      0, 0, 0, 0, 0, 0, 0, 0, 0, 0, 0, 0, 0, 0, 0, 0,
      0, 0, 0, 0, 0, 0, 0, 0, 0, 0, 0, 0, 0, 0, 0, 0]"

text \<open>
  A battery response that is zero except for the chemistry code (offset 3) and the checksum
  (offset 63):
\<close>

definition battery_frame :: "byte \<Rightarrow> byte \<Rightarrow> bytes" where
  "battery_frame type_code chk =
     [0, 0, 0, type_code, 0, 0, 0, 0, 0, 0, 0, 0, 0, 0, 0, 0,
      0, 0, 0, 0, 0, 0, 0, 0, 0, 0, 0, 0, 0, 0, 0, 0,
      0, 0, 0, 0, 0, 0, 0, 0, 0, 0, 0, 0, 0, 0, 0, 0,
      0, 0, 0, 0, 0, 0, 0, 0, 0, 0, 0, 0, 0, 0, 0, chk]"

text \<open>
  A progress response with work code 2, work time 10, capacity 1200 and the temperature
  bytes 0x80 0x05, for a given chemistry code (offset 2) and checksum (offset 63):
\<close>

definition progress_frame :: "byte \<Rightarrow> byte \<Rightarrow> bytes" where
  "progress_frame type_code chk =
     [0, 0, type_code, 0, 0, 2, 0, 10, 0, 0, 0, 0, 4, 176, 128, 5,
      0, 0, 0, 0, 0, 0, 0, 0, 0, 0, 0, 0, 0, 0, 0, 0,
      0, 0, 0, 0, 0, 0, 0, 0, 0, 0, 0, 0, 0, 0, 0, 0,
      0, 0, 0, 0, 0, 0, 0, 0, 0, 0, 0, 0, 0, 0, 0, chk]"

section \<open>Properties\<close>

subsection \<open>Arithmetic and indexing\<close>

lemma and_255: "(x::int) AND 255 = x mod 256"
  using take_bit_eq_mask[of 8 x] by (simp add: take_bit_eq_mod mask_eq_exp_minus_1)

lemma uint_byte_mod: "uint (b :: byte) mod 256 = uint b"
  using unsigned_less[of b, where ?'a = int] by simp

lemma not_and_255_of_multiple:
  "(s :: int) mod 256 = 0 \<Longrightarrow> (NOT s AND 0xff) + 1 = 256"
proof -
  assume a: "s mod 256 = 0"
  have "(- s - 1) mod 256 = (- (s mod 256) - 1) mod 256"
    by (metis mod_diff_left_eq mod_minus_eq)
  then have "(- s - 1) mod 256 = 255" using a by simp
  then show ?thesis by (simp add: and_255 not_int_def)
qed

lemma getbyte_in: "i < length data \<Longrightarrow> getbyte data (int i) = Inr (uint (data ! i))"
  by (simp add: getbyte_def getitem_def)

lemma getbyte_last: "length r = 64 \<Longrightarrow> getbyte r (- 1) = Inr (uint (last r))"
proof -
  assume l: "length r = 64"
  then have "r \<noteq> []" by auto
  then have "last r = r ! 63" using l by (simp add: last_conv_nth)
  then show ?thesis using l by (simp add: getbyte_def getitem_def)
qed

lemma map_nth_take: "n \<le> length xs \<Longrightarrow> map (\<lambda>i. f (xs ! i)) [0..<n] = map f (take n xs)"
  by (rule nth_equalityI) auto

lemma map_nth_drop_take:
  "off + n \<le> length xs \<Longrightarrow> map (\<lambda>j. f (xs ! (off + j))) [0..<n] = map f (take n (drop off xs))"
  by (rule nth_equalityI) auto

lemma sum_list_take_nth:
  "n \<le> length xs \<Longrightarrow> sum_list (map f (take n xs)) = (\<Sum>i = 0..<n. f (xs ! i))"
  using map_nth_take[of n xs f, symmetric] by (simp add: sum_list_sum_nth atLeast0LessThan)

lemma sum_list_drop_take_nth:
  assumes "off + n \<le> length xs"
  shows "sum_list (map f (take n (drop off xs))) = (\<Sum>i = off..<off + n. f (xs ! i))"
proof -
  have "sum_list (map f (take n (drop off xs))) = sum_list (map (\<lambda>j. f (xs ! (off + j))) [0..<n])"
    using map_nth_drop_take[OF assms, of f] by simp
  also have "\<dots> = (\<Sum>j = 0..<n. f (xs ! (off + j)))"
    by (simp add: sum_list_sum_nth atLeast0LessThan)
  also have "\<dots> = (\<Sum>i = off..<off + n. f (xs ! i))"
    using sum.shift_bounds_nat_ivl[of "\<lambda>i. f (xs ! i)" 0 off n] by (simp add: add.commute)
  finally show ?thesis .
qed

lemma tem_unit_index:
  "getitem TEM_UNIT (uint (b :: byte)) = (if uint b < 2 then Inr (TEM_UNIT ! unat b) else Inl IndexError)"
  by (simp add: getitem_def TEM_UNIT_def)

subsection \<open>The example frames\<close>

lemma info_frame_length: "length (info_frame u a c) = 64"
  by (simp add: info_frame_def)

lemma info_frame_nth: "info_frame u a c ! 8 = u" "info_frame u a c ! 31 = c"
  by (simp_all add: info_frame_def)

lemma info_frame_block:
  "take 16 (drop 16 (info_frame u a c)) = [a, 0, 0, 0, 0, 0, 0, 0, 0, 0, 0, 0, 0, 0, 0, c]"
  "take 15 (drop 16 (info_frame u a c)) = [a, 0, 0, 0, 0, 0, 0, 0, 0, 0, 0, 0, 0, 0, 0]"
  "take 15 (drop (Suc 0) (info_frame u a c)) = [0, 0, 0, 0, 0, 0, 0, u, 0, 0, 0, 0, 0, 0, 0]"
  "take 15 (drop 33 (info_frame u a c)) = [0, 0, 0, 0, 0, 0, 0, 0, 0, 0, 0, 0, 0, 0, 0]"
  "drop 48 (info_frame u a c) = [0, 0, 0, 0, 0, 0, 0, 0, 0, 0, 0, 0, 0, 0, 0, 0]"
  by (simp_all add: info_frame_def)

lemma battery_frame_length: "length (battery_frame t c) = 64"
  by (simp add: battery_frame_def)

lemma battery_frame_checksum_ok: "checksum_ok (battery_frame t c) = (uint c = uint t)"
  by (simp add: battery_frame_def checksum_ok_def uint_byte_mod)

lemma battery_frame_unmapped:
  "has_unmapped_code (battery_frame t c) = (BATTERY_TYPE (uint t) = None)"
  by (simp add: has_unmapped_code_def battery_frame_def BATTERY_MODE_def CYCLE_MODE_def)

lemma battery_type_values:
  "BATTERY_TYPE 0 = Some ''LiIon''" "BATTERY_TYPE 1 = Some ''LiFe''"
  "BATTERY_TYPE 2 = Some ''LiHV''" "BATTERY_TYPE 3 = Some ''NiMH''"
  "BATTERY_TYPE 7 = None" "BATTERY_TYPE 9 = None"
  by (simp_all add: BATTERY_TYPE_def)

lemma progress_frame_length: "length (progress_frame t c) = 64"
  by (simp add: progress_frame_def)

lemma progress_frame_9_ok: "checksum_ok (progress_frame 9 78)"
  by (simp add: progress_frame_def checksum_ok_def)

lemma progress_frame_fields:
  "unpack_B (progress_frame t c) 2 = uint t"
  "unpack_B (progress_frame t c) 5 = 2"
  "unpack_h (progress_frame t c) 6 = 10"
  "unpack_h (progress_frame t c) 12 = 1200"
  "unpack_h (progress_frame t c) 14 = - 32763"
  by (simp_all add: progress_frame_def unpack_B_def unpack_h_def)

subsection \<open>packet_checksum\<close>

lemma packet_checksum_loop_sum:
  "\<forall>i\<in>set is. i < length data \<Longrightarrow> 0 \<le> crc \<Longrightarrow> crc < 256 \<Longrightarrow>
   packet_checksum_loop data is crc = Inr ((crc + sum_list (map (\<lambda>i. uint (data ! i)) is)) mod 256)"
proof (induction "is" arbitrary: crc)
  case Nil
  then show ?case by simp
next
  case (Cons i "is")
  have "packet_checksum_loop data (i # is) crc = packet_checksum_loop data is ((crc + uint (data ! i)) mod 256)"
    using Cons.prems by (simp add: getbyte_in and_255)
  also have "\<dots> = Inr (((crc + uint (data ! i)) mod 256 + sum_list (map (\<lambda>i. uint (data ! i)) is)) mod 256)"
    using Cons.prems by (intro Cons.IH) auto
  also have "\<dots> = Inr ((crc + sum_list (map (\<lambda>i. uint (data ! i)) (i # is))) mod 256)"
    by (simp add: mod_add_left_eq add.assoc)
  finally show ?case .
qed

lemma packet_checksum_eq:
  "63 \<le> length data \<Longrightarrow> packet_checksum data = Inr (sum_list (map uint (take 63 data)) mod 256)"
  unfolding packet_checksum_def
  using packet_checksum_loop_sum[of "[0..<63]" data 0] map_nth_take[of 63 data uint]
  by simp

text \<open>
  C2. On a buffer of at least 63 bytes \<^verbatim>\<open>packet_checksum\<close> returns, without raising,
  the sum of the bytes at positions 0 to 62 modulo 256; the value lies in 0..255; and a buffer
  with the same first 63 bytes has the same checksum.
\<close>

theorem packet_checksum_sum_mod_256:
  assumes "63 \<le> length data_packet"
  shows "packet_checksum data_packet = Inr ((\<Sum>i = 0..<63. uint (data_packet ! i)) mod 256)
       \<and> (\<exists>crc. packet_checksum data_packet = Inr crc \<and> 0 \<le> crc \<and> crc \<le> 255)
       \<and> (\<forall>other. take 63 other = take 63 data_packet
             \<longrightarrow> packet_checksum other = packet_checksum data_packet)"
proof -
  have eq: "packet_checksum data_packet = Inr (sum_list (map uint (take 63 data_packet)) mod 256)"
    using assms by (rule packet_checksum_eq)
  have a: "packet_checksum data_packet = Inr ((\<Sum>i = 0..<63. uint (data_packet ! i)) mod 256)"
    using eq sum_list_take_nth[OF assms, of uint] by simp
  have b: "\<exists>crc. packet_checksum data_packet = Inr crc \<and> 0 \<le> crc \<and> crc \<le> 255"
    using eq by simp
  have c: "packet_checksum other = packet_checksum data_packet"
    if t: "take 63 other = take 63 data_packet" for other
  proof -
    have "length (take 63 other) = length (take 63 data_packet)" using t by simp
    then have "63 \<le> length other" using assms by simp
    then show ?thesis using eq t by (simp add: packet_checksum_eq)
  qed
  show ?thesis using a b c by blast
qed

text \<open>
  At 64 bytes of 0xff the checksum is 63 * 255 mod 256 = 193, and changing byte 63 does not
  change it.
\<close>

theorem packet_checksum_sum_mod_256_witness:
  "63 \<le> length (replicate 64 (0xff :: byte))
   \<and> packet_checksum (replicate 64 0xff) = Inr 193
   \<and> packet_checksum (replicate 63 0xff @ [0x07]) = packet_checksum (replicate 64 0xff)"
proof -
  have h: "63 \<le> length (replicate 64 (0xff :: byte))" by simp
  have s: "(\<Sum>i = 0..<63. uint (replicate 64 (0xff :: byte) ! i)) = 63 * 255"
    by simp
  show ?thesis
    using packet_checksum_sum_mod_256 [OF h] s by simp
qed

subsection \<open>send\<close>

lemma send_charger_ok:
  "- 128 \<le> s \<Longrightarrow> s \<le> 32 \<Longrightarrow>
   send CMD_READ_CHARGER_DATA s self = (Inr (), self\<lparr>sent := sent self @ [command_frame 0x5f s]\<rparr>)"
  by (simp add: send_def CMD_READ_CHARGER_DATA_def CMD_PACKET_HEADER_def CMD_PACKET_TAIL_def
      pack_2scxbb2s_def pack_c_def pack_b_def pack_2s_def send_raw_def command_frame_def)

lemma send_progress_ok:
  "- 128 \<le> s \<Longrightarrow> s \<le> 42 \<Longrightarrow>
   send CMD_READ_PROGRESS_DATA s self = (Inr (), self\<lparr>sent := sent self @ [command_frame 0x55 s]\<rparr>)"
  by (simp add: send_def CMD_READ_CHARGER_DATA_def CMD_READ_PROGRESS_DATA_def CMD_PACKET_HEADER_def CMD_PACKET_TAIL_def
      pack_2scxbb2s_def pack_c_def pack_b_def pack_2s_def send_raw_def command_frame_def)

lemma send_charger_error:
  "s < - 128 \<or> 32 < s \<Longrightarrow> send CMD_READ_CHARGER_DATA s self = (Inl StructError, self)"
  by (auto simp add: send_def CMD_READ_CHARGER_DATA_def CMD_PACKET_HEADER_def CMD_PACKET_TAIL_def
      pack_2scxbb2s_def pack_c_def pack_b_def pack_2s_def send_raw_def)

lemma send_progress_error:
  "s < - 128 \<or> 42 < s \<Longrightarrow> send CMD_READ_PROGRESS_DATA s self = (Inl StructError, self)"
  by (auto simp add: send_def CMD_READ_CHARGER_DATA_def CMD_READ_PROGRESS_DATA_def CMD_PACKET_HEADER_def CMD_PACKET_TAIL_def
      pack_2scxbb2s_def pack_c_def pack_b_def pack_2s_def send_raw_def)

lemma command_frame_seq: "uint (command_frame opcode s ! 5) = (uint opcode + s) mod 256"
proof -
  have "command_frame opcode s ! 5 = (word_of_int (uint opcode + s) :: byte)"
    by (simp add: command_frame_def del: of_int_add)
  then have "uint (command_frame opcode s ! 5) = (uint opcode + s) mod 2 ^ LENGTH(8)"
    by (simp only: uint_word_of_int)
  then show ?thesis by simp
qed

text \<open>
  C3. A command that \<^verbatim>\<open>send\<close> builds for one of its two opcodes is exactly 8 bytes
  long (not 64): the header 0x0F 0x04, the opcode, a zero pad byte, the slot byte, the byte
  made of opcode plus slot, and the tail 0xFF 0xFF. This holds whenever the slot is at least
  -128 and opcode plus slot is at most 127, which is what the signed-byte format of
  \<^verbatim>\<open>pack\<close> accepts.
\<close>

theorem command_frame_layout:
  assumes "cmd = CMD_READ_CHARGER_DATA \<or> cmd = CMD_READ_PROGRESS_DATA"
    and "- 128 \<le> s" and "from_bytes_little cmd + s \<le> 127"
  shows "\<exists>frame. send cmd s self = (Inr (), self\<lparr>sent := sent self @ [frame]\<rparr>)
           \<and> length frame = 8
           \<and> take 2 frame = [0x0f, 0x04]
           \<and> [frame ! 2] = cmd
           \<and> frame ! 3 = 0
           \<and> frame ! 4 = word_of_int s
           \<and> frame ! 5 = word_of_int (from_bytes_little cmd + s)
           \<and> drop 6 frame = [0xff, 0xff]"
proof -
  from assms(1) show ?thesis
  proof
    assume c: "cmd = CMD_READ_CHARGER_DATA"
    then have "s \<le> 32" using assms(3) by (simp add: CMD_READ_CHARGER_DATA_def)
    from send_charger_ok[OF assms(2) this, of self] show ?thesis
      by (intro exI[where x = "command_frame 0x5f s"])
        (simp add: c command_frame_def CMD_READ_CHARGER_DATA_def)
  next
    assume c: "cmd = CMD_READ_PROGRESS_DATA"
    then have "s \<le> 42" using assms(3) by (simp add: CMD_READ_PROGRESS_DATA_def)
    from send_progress_ok[OF assms(2) this, of self] show ?thesis
      by (intro exI[where x = "command_frame 0x55 s"])
        (simp add: c command_frame_def CMD_READ_PROGRESS_DATA_def)
  qed
qed

text \<open>The progress command for slot 2.\<close>

theorem command_frame_layout_witness:
  "send CMD_READ_PROGRESS_DATA 2 (device []) =
     (Inr (), \<lparr>sent = [[0x0f, 0x04, 0x55, 0, 2, 0x57, 0xff, 0xff]], pending = [],
              machine_info = None\<rparr>)"
proof -
  have a: "CMD_READ_PROGRESS_DATA = CMD_READ_CHARGER_DATA \<or> CMD_READ_PROGRESS_DATA = CMD_READ_PROGRESS_DATA"
    by simp
  have b: "- 128 \<le> (2::int)" by simp
  have c: "from_bytes_little CMD_READ_PROGRESS_DATA + 2 \<le> 127"
    by (simp add: CMD_READ_PROGRESS_DATA_def)
  obtain frame where f: "send CMD_READ_PROGRESS_DATA 2 (device []) = (Inr (), (device [])\<lparr>sent := sent (device []) @ [frame]\<rparr>)"
    "length frame = 8" "take 2 frame = [0x0f, 0x04]" "[frame ! 2] = CMD_READ_PROGRESS_DATA"
    "frame ! 3 = 0" "frame ! 4 = word_of_int 2"
    "frame ! 5 = word_of_int (from_bytes_little CMD_READ_PROGRESS_DATA + 2)"
    "drop 6 frame = [0xff, 0xff]"
    using command_frame_layout[OF a b c, of "device []"] by blast
  have "frame = take 2 frame @ [frame ! 2] @ [frame ! 3, frame ! 4, frame ! 5] @ drop 6 frame"
    using f(2) by (intro nth_equalityI) (auto simp: nth_append nth_Cons' less_Suc_eq numeral_eq_Suc)
  then have "frame = [0x0f, 0x04, 0x55, 0, 2, 0x57, 0xff, 0xff]"
    using f by (simp add: CMD_READ_PROGRESS_DATA_def)
  then show ?thesis using f(1) by (simp add: device_def)
qed

text \<open>
  The charger-config command for slot 0 is the 8 bytes 0F 04 5F 00 00 5F FF FF, so a command
  frame is not 64 bytes long.
\<close>

theorem command_frame_layout_counterexample:
  "send CMD_READ_CHARGER_DATA 0 (device []) =
     (Inr (), \<lparr>sent = [[0x0f, 0x04, 0x5f, 0, 0, 0x5f, 0xff, 0xff]], pending = [],
              machine_info = None\<rparr>)
   \<and> length [0x0f, 0x04, 0x5f, 0, 0, 0x5f, 0xff, 0xff :: byte] \<noteq> 64"
  using send_charger_ok[of 0 "device []"] by (simp add: command_frame_def device_def)

text \<open>
  C4. For a slot \<open>s\<close> with \<open>-128 \<le> s\<close> and opcode plus \<open>s\<close> at most 127 (that is
  \<open>s \<le> 32\<close> for the charger-config opcode 0x5F and \<open>s \<le> 42\<close> for the progress opcode
  0x55) the frame that \<^verbatim>\<open>send\<close> writes carries at offset 5 the byte
  \<open>(opcode + s) mod 256\<close>. For every other slot \<^verbatim>\<open>pack\<close> raises
  \<^verbatim>\<open>struct.error\<close> and nothing is written: the code adds opcode and slot as
  integers and never reduces the sum modulo 256.
\<close>

theorem seqcheck_byte:
  "(- 128 \<le> s \<and> s \<le> 32 \<longrightarrow>
      (\<exists>frame. send CMD_READ_CHARGER_DATA s self = (Inr (), self\<lparr>sent := sent self @ [frame]\<rparr>)
         \<and> uint (frame ! 5) = (0x5f + s) mod 256))
   \<and> (- 128 \<le> s \<and> s \<le> 42 \<longrightarrow>
      (\<exists>frame. send CMD_READ_PROGRESS_DATA s self = (Inr (), self\<lparr>sent := sent self @ [frame]\<rparr>)
         \<and> uint (frame ! 5) = (0x55 + s) mod 256))
   \<and> (s < - 128 \<or> 32 < s \<longrightarrow> send CMD_READ_CHARGER_DATA s self = (Inl StructError, self))
   \<and> (s < - 128 \<or> 42 < s \<longrightarrow> send CMD_READ_PROGRESS_DATA s self = (Inl StructError, self))"
proof -
  have a: "\<exists>frame. send CMD_READ_CHARGER_DATA s self = (Inr (), self\<lparr>sent := sent self @ [frame]\<rparr>)
         \<and> uint (frame ! 5) = (0x5f + s) mod 256" if "- 128 \<le> s" "s \<le> 32"
    using send_charger_ok[OF that, of self] command_frame_seq[of "0x5f" s]
    by (intro exI[where x = "command_frame 0x5f s"]) simp
  have b: "\<exists>frame. send CMD_READ_PROGRESS_DATA s self = (Inr (), self\<lparr>sent := sent self @ [frame]\<rparr>)
         \<and> uint (frame ! 5) = (0x55 + s) mod 256" if "- 128 \<le> s" "s \<le> 42"
    using send_progress_ok[OF that, of self] command_frame_seq[of "0x55" s]
    by (intro exI[where x = "command_frame 0x55 s"]) simp
  show ?thesis
    using a b send_charger_error[of s self] send_progress_error[of s self] by blast
qed

text \<open>Slot 3 gives the bytes 0x62 and 0x58; slot 200 is refused for both opcodes.\<close>

theorem seqcheck_byte_witness:
  "map (\<lambda>f. uint (f ! 5)) (sent (snd (send CMD_READ_CHARGER_DATA 3 (device [])))) = [0x62]
   \<and> map (\<lambda>f. uint (f ! 5)) (sent (snd (send CMD_READ_PROGRESS_DATA 3 (device [])))) = [0x58]
   \<and> send CMD_READ_CHARGER_DATA 200 (device []) = (Inl StructError, device [])
   \<and> send CMD_READ_PROGRESS_DATA 200 (device []) = (Inl StructError, device [])"
  using seqcheck_byte[of 3 "device []"] seqcheck_byte[of 200 "device []"]
  by (auto simp add: device_def)

text \<open>
  For the slot byte 33 and the charger-config opcode the sum is 128: no frame with the byte
  128 at offset 5 is built, \<^verbatim>\<open>send\<close> raises instead.
\<close>

theorem seqcheck_byte_counterexample:
  "send CMD_READ_CHARGER_DATA 33 (device []) = (Inl StructError, device [])
   \<and> sent (snd (send CMD_READ_CHARGER_DATA 33 (device []))) = []"
  using send_charger_error[of 33 "device []"] by (simp add: device_def)

text \<open>
  C9. \<^verbatim>\<open>send\<close> with an opcode other than the two supported ones writes nothing to the
  device and returns normally: the opcode is ignored, no error is raised.
\<close>

theorem unsupported_opcode_ignored:
  assumes "cmd \<noteq> CMD_READ_CHARGER_DATA" and "cmd \<noteq> CMD_READ_PROGRESS_DATA"
  shows "send cmd buffer self = (Inr (), self)"
  using assms by (simp add: send_def)

text \<open>The opcode 0x5A of the machine-info request is not one that \<^verbatim>\<open>send\<close> builds.\<close>

theorem unsupported_opcode_ignored_witness:
  "send [0x5a] 4 (device []) = (Inr (), device [])"
proof -
  have a: "[0x5a] \<noteq> CMD_READ_CHARGER_DATA" by (simp add: CMD_READ_CHARGER_DATA_def)
  have b: "[0x5a] \<noteq> CMD_READ_PROGRESS_DATA" by (simp add: CMD_READ_PROGRESS_DATA_def)
  show ?thesis using unsupported_opcode_ignored[OF a b] .
qed

text \<open>With the opcode 0x01 the call is not an error, and the device is untouched.\<close>

theorem unsupported_opcode_ignored_counterexample:
  "\<not> isl (fst (send [0x01] 0 (device [])))
   \<and> snd (send [0x01] 0 (device [])) = device []"
  by (simp add: send_def CMD_READ_CHARGER_DATA_def CMD_READ_PROGRESS_DATA_def)

subsection \<open>get_machine_info\<close>

lemma format_byte_hex2: "format_rjust (format_X (uint b)) 2 (CHR ''0'') = hex2 (b :: byte)"
proof -
  have lt: "unat b < 256" using unsigned_less[of b, where ?'a = nat] by simp
  have nn: "\<not> uint b < 0" by simp
  have n: "nat (uint b) = unat b" by simp
  show ?thesis
  proof (cases "unat b < 16")
    case True
    then show ?thesis
      using nn n by (simp add: format_X_def format_rjust_def hex2_def hex_upper.simps[of "unat b"] hexdigit_def del: nat_uint_eq)
  next
    case False
    then have d: "unat b div 16 < 16" using lt by simp
    show ?thesis
      using nn n False d
      by (simp add: format_X_def format_rjust_def hex2_def hex_upper.simps[of "unat b"] hex_upper.simps[of "unat b div 16"] del: nat_uint_eq)
  qed
qed

lemma length_concat_hex2: "length (concat (map hex2 xs)) = 2 * length xs"
  by (induction xs) (simp_all add: hex2_def)

lemma machine_id_loop_eq:
  "\<forall>j\<in>set js. 16 + j < length response \<Longrightarrow>
   machine_id_loop response js crc mid =
     Inr (crc + sum_list (map (\<lambda>j. uint (response ! (16 + j))) (filter (\<lambda>j. j < 15) js)),
          mid @ concat (map (\<lambda>j. hex2 (response ! (16 + j))) js))"
proof (induction js arbitrary: crc mid)
  case Nil
  then show ?case by simp
next
  case (Cons j js)
  have g: "getbyte response (16 + int j) = Inr (uint (response ! (16 + j)))"
    using Cons.prems getbyte_in[of "16 + j" response] by simp
  show ?case
    using Cons.prems by (simp add: g Cons.IH format_byte_hex2 Let_def)
qed

lemma machine_id_loop_Inr_bound:
  "machine_id_loop response js crc mid = Inr x \<Longrightarrow> \<forall>j\<in>set js. 16 + j < length response"
proof (induction js arbitrary: crc mid)
  case Nil
  then show ?case by simp
next
  case (Cons j js)
  show ?case
  proof (cases "16 + j < length response")
    case True
    then have g: "getbyte response (16 + int j) = Inr (uint (response ! (16 + j)))"
      using getbyte_in[of "16 + j" response] by simp
    from Cons.prems have "\<exists>c m. machine_id_loop response js c m = Inr x"
      by (auto simp: g Let_def)
    then show ?thesis using Cons.IH True by auto
  next
    case False
    then have "getbyte response (16 + int j) = Inl IndexError"
      by (simp add: getbyte_def getitem_def)
    then show ?thesis using Cons.prems by simp
  qed
qed

lemma machine_id_loop_16:
  assumes "32 \<le> length response"
  shows "machine_id_loop response [0..<16] 0 [] =
           Inr (sum_list (map uint (take 15 (drop 16 response))),
                concat (map hex2 (take 16 (drop 16 response))))"
proof -
  have f: "filter (\<lambda>j. j < 15) [0..<16] = [0..<15]"
    by (simp add: upt_rec[of _ 16] upt_rec[of _ 15] numeral_eq_Suc) 
  have a: "map (\<lambda>j. uint (response ! (16 + j))) [0..<15] = map uint (take 15 (drop 16 response))"
    using assms by (intro map_nth_drop_take) simp
  have b: "map (\<lambda>j. hex2 (response ! (16 + j))) [0..<16] = map hex2 (take 16 (drop 16 response))"
    using assms by (intro map_nth_drop_take) simp
  have "\<forall>j\<in>set [0..<16]. 16 + j < length response" using assms by simp
  from machine_id_loop_eq[OF this, of 0 "[]"] show ?thesis
    by (simp only: f a b) simp
qed

lemma info_sum_16_31:
  "32 \<le> length r \<Longrightarrow> sum_list (map uint (take 15 (drop 16 r))) = (\<Sum>i = 16..<31. uint (r ! i))"
  using sum_list_drop_take_nth[of 16 15 r uint] by simp

lemma info_frame_sum: "(\<Sum>i = 16..<31. uint (info_frame u a c ! i)) = uint a"
  using info_sum_16_31[of "info_frame u a c"] by (simp add: info_frame_length info_frame_block)

lemma get_machine_info_index_error:
  assumes "pending self = r # rest" "32 \<le> length r" "2 \<le> uint (r ! 8)"
  shows "get_machine_info self =
           (Inl IndexError, self\<lparr>sent := sent self @ [machine_info_request], pending := rest\<rparr>)"
  using assms
  by (simp add: get_machine_info_def send_raw_def read_def machine_id_loop_16
      unpack_machine_info_def tem_unit_index unpack_B_def machine_info_request_def)

lemma get_machine_info_checksum_error:
  assumes "pending self = r # rest" "32 \<le> length r" "uint (r ! 8) < 2"
    and "(NOT (\<Sum>i = 16..<31. uint (r ! i)) AND 0xff) + 1 \<noteq> uint (r ! 31)"
  shows "get_machine_info self =
           (Inl ChecksumError, self\<lparr>sent := sent self @ [machine_info_request], pending := rest\<rparr>)"
  using assms
  by (simp add: get_machine_info_def send_raw_def read_def machine_id_loop_16
      unpack_machine_info_def tem_unit_index unpack_B_def machine_info_request_def
      info_sum_16_31 Let_def)

lemma get_machine_info_ok:
  assumes "pending self = r # rest" "32 \<le> length r" "uint (r ! 8) < 2"
    and "(NOT (\<Sum>i = 16..<31. uint (r ! i)) AND 0xff) + 1 = uint (r ! 31)"
  shows "\<exists>m. get_machine_info self =
           (Inr m, self\<lparr>sent := sent self @ [machine_info_request], pending := rest,
                        machine_info := Some m\<rparr>)
         \<and> machine_id m = concat (map hex2 (take 16 (drop 16 r)))
         \<and> MachineInfo.checksum m = uint (r ! 31)"
  using assms
  by (simp add: get_machine_info_def send_raw_def read_def machine_id_loop_16
      unpack_machine_info_def tem_unit_index unpack_B_def machine_info_request_def
      info_sum_16_31 Let_def)

lemma get_machine_info_Inr_length:
  assumes "pending self = r # rest" "get_machine_info self = (Inr m, self')"
  shows "32 \<le> length r"
proof -
  have "\<exists>x. machine_id_loop r [0..<16] 0 [] = Inr x"
    using assms
    by (auto simp add: get_machine_info_def send_raw_def read_def Let_def split: sum.splits)
  then obtain x where "machine_id_loop r [0..<16] 0 [] = Inr x" ..
  from machine_id_loop_Inr_bound[OF this] have b: "\<forall>j\<in>set [0..<16]. 16 + j < length r" .
  have "(15::nat) \<in> set [0..<16]" by simp
  with b have "16 + (15::nat) < length r" by blast
  then show ?thesis by simp
qed

text \<open>
  C1. The machine-info checksum is computed from the 15 bytes at offsets 16 to 30 of the
  response, which are the first 15 bytes of the 16-byte identifier block at offsets 16 to 31
  (not the 15 bytes before it): their sum is complemented, masked to one byte and
  incremented, which gives a value in 1..256, and the result is compared with the checksum
  field, the byte at offset 31. When the temperature-unit selector at offset 8 is 0 or 1, a
  mismatch makes the call fail with the checksum error, no record is returned and the stored
  \<open>machine_info\<close> is unchanged; on a match the record is returned and stored.
\<close>

theorem info_checksum_offsets_16_to_30:
  assumes "pending self = r # rest" and "32 \<le> length r" and "uint (r ! 8) < 2"
  shows "((NOT (\<Sum>i = 16..<31. uint (r ! i)) AND 0xff) + 1 \<noteq> uint (r ! 31) \<longrightarrow>
           get_machine_info self =
             (Inl ChecksumError,
              self\<lparr>sent := sent self @ [machine_info_request], pending := rest\<rparr>))
       \<and> ((NOT (\<Sum>i = 16..<31. uint (r ! i)) AND 0xff) + 1 = uint (r ! 31) \<longrightarrow>
           (\<exists>m. get_machine_info self =
                  (Inr m, self\<lparr>sent := sent self @ [machine_info_request], pending := rest,
                               machine_info := Some m\<rparr>)
                \<and> MachineInfo.checksum m = uint (r ! 31)))"
  using get_machine_info_checksum_error[OF assms] get_machine_info_ok[OF assms] by blast

text \<open>
  An all-zero response fails the check (the computed value is 256); a response with
  identifier byte 1 and checksum 255 passes it.
\<close>

theorem info_checksum_offsets_16_to_30_witness:
  "get_machine_info (device [info_frame 0 0 0]) =
     (Inl ChecksumError, \<lparr>sent = [machine_info_request], pending = [], machine_info = None\<rparr>)
   \<and> \<not> isl (fst (get_machine_info (device [info_frame 1 1 255])))"
proof -
  have p: "pending (device [info_frame u a c]) = info_frame u a c # []" for u a c
    by (simp add: device_def)
  have l: "32 \<le> length (info_frame u a c)" for u a c
    by (simp add: info_frame_length)
  have a: "uint (info_frame 0 0 0 ! 8) < 2" by (simp add: info_frame_nth)
  have b: "uint (info_frame 1 1 255 ! 8) < 2" by (simp add: info_frame_nth)
  have x: "get_machine_info (device [info_frame 0 0 0]) =
     (Inl ChecksumError, \<lparr>sent = [machine_info_request], pending = [], machine_info = None\<rparr>)"
    using info_checksum_offsets_16_to_30[OF p l a]
    by (simp add: info_frame_sum info_frame_nth device_def)
  have "\<exists>m s. get_machine_info (device [info_frame 1 1 255]) = (Inr m, s)"
    using info_checksum_offsets_16_to_30[OF p l b]
    by (simp add: info_frame_sum info_frame_nth) blast
  then have y: "\<not> isl (fst (get_machine_info (device [info_frame 1 1 255])))"
    by auto
  show ?thesis using x y by simp
qed

text \<open>
  In the response with the byte 1 at offset 16 and the checksum 255 at offset 31, the 15
  bytes before the identifier block are zero, whether the block is taken to be the last 16
  bytes of the response (offsets 48 to 63) or the block at offsets 16 to 31 that the code
  renders. The checksum of the specification's wording is then 256 and differs from the
  field, yet the call returns a record.
\<close>

theorem info_checksum_offsets_16_to_30_counterexample:
  "spec_info_checksum 48 (info_frame 0 1 255) \<noteq> uint (info_frame 0 1 255 ! 31)
   \<and> spec_info_checksum 16 (info_frame 0 1 255) \<noteq> uint (info_frame 0 1 255 ! 31)
   \<and> \<not> isl (fst (get_machine_info (device [info_frame 0 1 255])))"
proof -
  have p: "pending (device [info_frame 0 1 255]) = info_frame 0 1 255 # []"
    by (simp add: device_def)
  have l: "32 \<le> length (info_frame 0 1 255)"
    by (simp add: info_frame_length)
  have a: "uint (info_frame 0 1 255 ! 8) < 2" by (simp add: info_frame_nth)
  have c: "(NOT (\<Sum>i = 16..<31. uint (info_frame 0 1 255 ! i)) AND 0xff) + 1 = uint (info_frame 0 1 255 ! 31)"
    by (simp add: info_frame_sum info_frame_nth)
  have "\<not> isl (fst (get_machine_info (device [info_frame 0 1 255])))"
    using get_machine_info_ok[OF p l a c] by auto
  then show ?thesis
    by (simp add: spec_info_checksum_def info_frame_block info_frame_nth)
qed

text \<open>
  C5. When \<^verbatim>\<open>get_machine_info\<close> returns a record, its machine id is formed from the 16
  bytes at offsets 16 to 31 of the response (the last 16 bytes of the 32 bytes that are
  parsed, not of the 64-byte response), each rendered as two uppercase hexadecimal digits
  with a leading zero where needed, in order; the string has 32 characters.
\<close>

theorem machine_id_hex:
  assumes "pending self = r # rest" and "get_machine_info self = (Inr m, self')"
  shows "machine_id m = concat (map hex2 (take 16 (drop 16 r))) \<and> length (machine_id m) = 32"
proof -
  have l: "32 \<le> length r" using assms by (rule get_machine_info_Inr_length)
  have u: "uint (r ! 8) < 2"
  proof (rule ccontr)
    assume "\<not> uint (r ! 8) < 2"
    then have "2 \<le> uint (r ! 8)" by simp
    from get_machine_info_index_error[OF assms(1) l this] show False using assms(2) by simp
  qed
  have c: "(NOT (\<Sum>i = 16..<31. uint (r ! i)) AND 0xff) + 1 = uint (r ! 31)"
  proof (rule ccontr)
    assume "\<not> ?thesis"
    from get_machine_info_checksum_error[OF assms(1) l u this] show False using assms(2) by simp
  qed
  from get_machine_info_ok[OF assms(1) l u c] assms(2)
  have m: "machine_id m = concat (map hex2 (take 16 (drop 16 r)))" by auto
  then show ?thesis using l by (simp add: length_concat_hex2)
qed

text \<open>A response whose identifier block is AB 00 ... 00 55.\<close>

theorem machine_id_hex_witness:
  "machine_id (projr (fst (get_machine_info (device [info_frame 0 0xAB 0x55]))))
     = ''AB000000000000000000000000000055''"
proof -
  let ?f = "info_frame 0 0xAB 0x55"
  let ?g = "get_machine_info (device [?f])"
  have p: "pending (device [?f]) = ?f # []"
    by (simp add: device_def)
  have l: "32 \<le> length ?f"
    by (simp add: info_frame_length)
  have a: "uint (?f ! 8) < 2" by (simp add: info_frame_nth)
  have c: "(NOT (\<Sum>i = 16..<31. uint (?f ! i)) AND 0xff) + 1 = uint (?f ! 31)"
    by (simp add: info_frame_sum info_frame_nth)
  have "?g = (Inr (projr (fst ?g)), snd ?g)"
    using get_machine_info_ok[OF p l a c] by auto
  from machine_id_hex[OF p this] show ?thesis
    by (simp add: info_frame_block hex2_def hexdigit_def)
qed

text \<open>
  For the same response the machine id starts with AB and ends with 55, while the last 16
  bytes of the 64-byte response are zero and would render as 32 zeros.
\<close>

theorem machine_id_hex_counterexample:
  "map_sum id machine_id (fst (get_machine_info (device [info_frame 0 0xAB 0x55])))
     = Inr ''AB000000000000000000000000000055''
   \<and> concat (map hex2 (drop 48 (info_frame 0 0xAB 0x55))) = ''00000000000000000000000000000000''"
proof -
  let ?f = "info_frame 0 0xAB 0x55"
  let ?g = "get_machine_info (device [?f])"
  have p: "pending (device [?f]) = ?f # []"
    by (simp add: device_def)
  have l: "32 \<le> length ?f"
    by (simp add: info_frame_length)
  have a: "uint (?f ! 8) < 2" by (simp add: info_frame_nth)
  have c: "(NOT (\<Sum>i = 16..<31. uint (?f ! i)) AND 0xff) + 1 = uint (?f ! 31)"
    by (simp add: info_frame_sum info_frame_nth)
  have "map_sum id machine_id (fst ?g) = Inr (concat (map hex2 (take 16 (drop 16 ?f))))"
    using get_machine_info_ok[OF p l a c] by auto
  then show ?thesis
    by (simp add: info_frame_block hex2_def hexdigit_def)
qed

text \<open>
  C10. When the bytes at offsets 16 to 30 of a response of at least 32 bytes sum to a
  multiple of 256, the computed checksum is 256, which no checksum byte equals, and
  \<^verbatim>\<open>get_machine_info\<close> fails whatever the byte at offset 31 is: with the checksum
  error when the temperature-unit selector at offset 8 is 0 or 1, and with the index error
  of the \<^verbatim>\<open>TEM_UNIT\<close> lookup, which runs before the comparison, otherwise.
\<close>

theorem zero_sum_always_fails:
  assumes "pending self = r # rest" and "32 \<le> length r"
    and "(\<Sum>i = 16..<31. uint (r ! i)) mod 256 = 0"
  shows "(NOT (\<Sum>i = 16..<31. uint (r ! i)) AND 0xff) + 1 = 256
       \<and> get_machine_info self =
           (Inl (if uint (r ! 8) < 2 then ChecksumError else IndexError),
            self\<lparr>sent := sent self @ [machine_info_request], pending := rest\<rparr>)"
proof -
  have c: "(NOT (\<Sum>i = 16..<31. uint (r ! i)) AND 0xff) + 1 = 256"
    using assms(3) by (rule not_and_255_of_multiple)
  have "uint (r ! 31) < 256" using unsigned_less[of "r ! 31", where ?'a = int] by simp
  then have n: "(NOT (\<Sum>i = 16..<31. uint (r ! i)) AND 0xff) + 1 \<noteq> uint (r ! 31)"
    using c by simp
  show ?thesis
  proof (cases "uint (r ! 8) < 2")
    case True
    from get_machine_info_checksum_error[OF assms(1,2) True n] True c show ?thesis by simp
  next
    case False
    then have "2 \<le> uint (r ! 8)" by simp
    from get_machine_info_index_error[OF assms(1,2) this] False c show ?thesis by simp
  qed
qed

text \<open>A zero identifier block with the selector 1: the checksum error.\<close>

theorem zero_sum_always_fails_witness:
  "get_machine_info (device [info_frame 1 0 0]) =
     (Inl ChecksumError, \<lparr>sent = [machine_info_request], pending = [], machine_info = None\<rparr>)"
proof -
  let ?f = "info_frame 1 0 0"
  have p: "pending (device [?f]) = ?f # []"
    by (simp add: device_def)
  have l: "32 \<le> length ?f"
    by (simp add: info_frame_length)
  have z: "(\<Sum>i = 16..<31. uint (?f ! i)) mod 256 = 0"
    by (simp add: info_frame_sum)
  from zero_sum_always_fails[OF p l z] show ?thesis
    by (simp add: info_frame_nth device_def)
qed

text \<open>
  A zero identifier block with the selector 2: the call fails with the index error, not
  with the checksum error.
\<close>

theorem zero_sum_always_fails_counterexample:
  "(\<Sum>i = 16..<31. uint (info_frame 2 0 0 ! i)) mod 256 = 0
   \<and> fst (get_machine_info (device [info_frame 2 0 0])) = Inl IndexError
   \<and> fst (get_machine_info (device [info_frame 2 0 0])) \<noteq> Inl ChecksumError"
proof -
  let ?f = "info_frame 2 0 0"
  have p: "pending (device [?f]) = ?f # []"
    by (simp add: device_def)
  have l: "32 \<le> length ?f"
    by (simp add: info_frame_length)
  have a: "2 \<le> uint (?f ! 8)" by (simp add: info_frame_nth)
  from get_machine_info_index_error[OF p l a] show ?thesis
    by (simp add: info_frame_sum)
qed

subsection \<open>The per-slot scans\<close>

lemma unpack_battery_unmapped:
  "length r = 64 \<Longrightarrow> has_unmapped_code r \<Longrightarrow>
   unpack_battery r = Inl KeyError \<or> unpack_battery r = Inl IndexError"
  by (auto simp add: unpack_battery_def has_unmapped_code_def lookup_def unpack_B_def
      tem_unit_index split: option.splits)

lemma unpack_battery_mapped:
  "length r = 64 \<Longrightarrow> \<not> has_unmapped_code r \<Longrightarrow> \<exists>b. unpack_battery r = Inr b"
  by (auto simp add: unpack_battery_def has_unmapped_code_def lookup_def unpack_B_def
      tem_unit_index split: option.splits)

lemma battery_frame_type:
  "BATTERY_TYPE (uint t) = Some n \<Longrightarrow>
   map_sum id Battery.type (unpack_battery (battery_frame t c)) = Inr n"
  by (simp add: unpack_battery_def battery_frame_def lookup_def unpack_B_def
      BATTERY_MODE_def CYCLE_MODE_def getitem_def TEM_UNIT_def)

lemma battery_frame_key_error:
  "BATTERY_TYPE (uint t) = None \<Longrightarrow> unpack_battery (battery_frame t c) = Inl KeyError"
  by (simp add: unpack_battery_def battery_frame_def lookup_def unpack_B_def)

lemma unpack_progress_total: "length r = 64 \<Longrightarrow> \<exists>p. unpack_progress r = Inr p"
  by (simp add: unpack_progress_def Let_def)

lemma unpack_progress_fields:
  assumes "length r = 64"
  shows "\<exists>p. unpack_progress r = Inr p
           \<and> ProgressInfo.type p = unpack_B r 2
           \<and> ProgressInfo.work p = unpack_B r 5
           \<and> ProgressInfo.caps p = unpack_h r 12
           \<and> dcaps p = (if unpack_B r 5 = 2 then unpack_h r 12 else 0)
           \<and> work_time p = (if unpack_h r 6 > 0 then unpack_h r 6 - 1 else unpack_h r 6)
           \<and> bat_tem p = unpack_h r 14 AND 0x7fff"
  using assms by (simp add: unpack_progress_def Let_def)

lemma battery_step:
  assumes "pending self = r # rest" and "length r = 64" and "- 128 \<le> s" and "s \<le> 32"
  shows "battery_loop (s # slots) bs self =
           (if \<not> checksum_ok r
            then battery_loop slots bs
                   (self\<lparr>sent := sent self @ [command_frame 0x5f s], pending := rest\<rparr>)
            else (case unpack_battery r of
                    Inl e \<Rightarrow> (Inl e, self\<lparr>sent := sent self @ [command_frame 0x5f s], pending := rest\<rparr>)
                  | Inr b \<Rightarrow> battery_loop slots (bs @ [b])
                      (self\<lparr>sent := sent self @ [command_frame 0x5f s], pending := rest\<rparr>)))"
  using assms
  by (simp add: send_charger_ok read_def getbyte_last packet_checksum_eq checksum_ok_def)

lemma progress_step:
  assumes "pending self = r # rest" and "length r = 64" and "- 128 \<le> s" and "s \<le> 42"
  shows "progress_loop (s # slots) ps self =
           (if \<not> checksum_ok r
            then progress_loop slots ps
                   (self\<lparr>sent := sent self @ [command_frame 0x55 s], pending := rest\<rparr>)
            else (case unpack_progress r of
                    Inl e \<Rightarrow> (Inl e, self\<lparr>sent := sent self @ [command_frame 0x55 s], pending := rest\<rparr>)
                  | Inr p \<Rightarrow> progress_loop slots (ps @ [p])
                      (self\<lparr>sent := sent self @ [command_frame 0x55 s], pending := rest\<rparr>)))"
  using assms
  by (simp add: send_progress_ok read_def getbyte_last packet_checksum_eq checksum_ok_def)

lemma battery_loop_prefix:
  assumes "length rs = length slots"
    and "\<forall>s\<in>set slots. - 128 \<le> s \<and> s \<le> 32"
    and "\<forall>r\<in>set rs. length r = 64 \<and> (checksum_ok r \<longrightarrow> \<not> has_unmapped_code r)"
    and "pending self = rs @ rest"
  shows "\<exists>bs'. map Inr bs' = map unpack_battery (filter checksum_ok rs)
           \<and> battery_loop (slots @ todo) bs self =
               battery_loop todo (bs @ bs')
                 (self\<lparr>sent := sent self @ map (command_frame 0x5f) slots, pending := rest\<rparr>)"
  using assms
proof (induction rs slots arbitrary: bs self rule: list_induct2)
  case Nil
  then have "rest = pending self" by simp
  then show ?case by simp
next
  case (Cons r rs s slots)
  let ?self2 = "self\<lparr>sent := sent self @ [command_frame 0x5f s], pending := rs @ rest\<rparr>"
  have p: "pending self = r # (rs @ rest)" using Cons.prems(3) by simp
  have l: "length r = 64" using Cons.prems(2) by simp
  have s: "- 128 \<le> s" "s \<le> 32" using Cons.prems(1) by simp_all
  have step: "battery_loop ((s # slots) @ todo) bs self =
           (if \<not> checksum_ok r then battery_loop (slots @ todo) bs ?self2
            else (case unpack_battery r of
                    Inl e \<Rightarrow> (Inl e, ?self2)
                  | Inr b \<Rightarrow> battery_loop (slots @ todo) (bs @ [b]) ?self2))"
    using battery_step[OF p l s, of "slots @ todo" bs] by simp
  have ih: "\<exists>bs'. map Inr bs' = map unpack_battery (filter checksum_ok rs)
           \<and> battery_loop (slots @ todo) acc ?self2 =
               battery_loop todo (acc @ bs')
                 (?self2\<lparr>sent := sent ?self2 @ map (command_frame 0x5f) slots, pending := rest\<rparr>)"
    for acc
    using Cons.prems by (intro Cons.IH) simp_all
  have upd: "?self2\<lparr>sent := sent ?self2 @ map (command_frame 0x5f) slots, pending := rest\<rparr>
           = self\<lparr>sent := sent self @ map (command_frame 0x5f) (s # slots), pending := rest\<rparr>"
    by simp
  show ?case
  proof (cases "checksum_ok r")
    case False
    from ih[of bs] obtain bs' where
      "map Inr bs' = map unpack_battery (filter checksum_ok rs)"
      "battery_loop (slots @ todo) bs ?self2 =
         battery_loop todo (bs @ bs')
           (self\<lparr>sent := sent self @ map (command_frame 0x5f) (s # slots), pending := rest\<rparr>)"
      unfolding upd by blast
    then show ?thesis using False step by (intro exI[where x = bs']) simp
  next
    case True
    then have "\<not> has_unmapped_code r" using Cons.prems(2) by simp
    from unpack_battery_mapped[OF l this] obtain b where b: "unpack_battery r = Inr b" ..
    from ih[of "bs @ [b]"] obtain bs' where
      "map Inr bs' = map unpack_battery (filter checksum_ok rs)"
      "battery_loop (slots @ todo) (bs @ [b]) ?self2 =
         battery_loop todo ((bs @ [b]) @ bs')
           (self\<lparr>sent := sent self @ map (command_frame 0x5f) (s # slots), pending := rest\<rparr>)"
      unfolding upd by blast
    then show ?thesis using True step b by (intro exI[where x = "b # bs'"]) simp
  qed
qed

lemma progress_loop_prefix:
  assumes "length rs = length slots"
    and "\<forall>s\<in>set slots. - 128 \<le> s \<and> s \<le> 42"
    and "\<forall>r\<in>set rs. length r = 64"
    and "pending self = rs @ rest"
  shows "\<exists>ps'. map Inr ps' = map unpack_progress (filter checksum_ok rs)
           \<and> progress_loop (slots @ todo) ps self =
               progress_loop todo (ps @ ps')
                 (self\<lparr>sent := sent self @ map (command_frame 0x55) slots, pending := rest\<rparr>)"
  using assms
proof (induction rs slots arbitrary: ps self rule: list_induct2)
  case Nil
  then have "rest = pending self" by simp
  then show ?case by simp
next
  case (Cons r rs s slots)
  let ?self2 = "self\<lparr>sent := sent self @ [command_frame 0x55 s], pending := rs @ rest\<rparr>"
  have p: "pending self = r # (rs @ rest)" using Cons.prems(3) by simp
  have l: "length r = 64" using Cons.prems(2) by simp
  have s: "- 128 \<le> s" "s \<le> 42" using Cons.prems(1) by simp_all
  have step: "progress_loop ((s # slots) @ todo) ps self =
           (if \<not> checksum_ok r then progress_loop (slots @ todo) ps ?self2
            else (case unpack_progress r of
                    Inl e \<Rightarrow> (Inl e, ?self2)
                  | Inr b \<Rightarrow> progress_loop (slots @ todo) (ps @ [b]) ?self2))"
    using progress_step[OF p l s, of "slots @ todo" ps] by simp
  have ih: "\<exists>ps'. map Inr ps' = map unpack_progress (filter checksum_ok rs)
           \<and> progress_loop (slots @ todo) acc ?self2 =
               progress_loop todo (acc @ ps')
                 (?self2\<lparr>sent := sent ?self2 @ map (command_frame 0x55) slots, pending := rest\<rparr>)"
    for acc
    using Cons.prems by (intro Cons.IH) simp_all
  have upd: "?self2\<lparr>sent := sent ?self2 @ map (command_frame 0x55) slots, pending := rest\<rparr>
           = self\<lparr>sent := sent self @ map (command_frame 0x55) (s # slots), pending := rest\<rparr>"
    by simp
  show ?case
  proof (cases "checksum_ok r")
    case False
    from ih[of ps] obtain ps' where
      "map Inr ps' = map unpack_progress (filter checksum_ok rs)"
      "progress_loop (slots @ todo) ps ?self2 =
         progress_loop todo (ps @ ps')
           (self\<lparr>sent := sent self @ map (command_frame 0x55) (s # slots), pending := rest\<rparr>)"
      unfolding upd by blast
    then show ?thesis using False step by (intro exI[where x = ps']) simp
  next
    case True
    from unpack_progress_total[OF l] obtain b where b: "unpack_progress r = Inr b" ..
    from ih[of "ps @ [b]"] obtain ps' where
      "map Inr ps' = map unpack_progress (filter checksum_ok rs)"
      "progress_loop (slots @ todo) (ps @ [b]) ?self2 =
         progress_loop todo ((ps @ [b]) @ ps')
           (self\<lparr>sent := sent self @ map (command_frame 0x55) (s # slots), pending := rest\<rparr>)"
      unfolding upd by blast
    then show ?thesis using True step b by (intro exI[where x = "b # ps'"]) simp
  qed
qed

lemma battery_scan_aborts:
  assumes "pending self = pre @ r # rest" and "length pre < 4"
    and "\<forall>p\<in>set pre. length p = 64 \<and> (checksum_ok p \<longrightarrow> \<not> has_unmapped_code p)"
    and "length r = 64" and "checksum_ok r" and "has_unmapped_code r"
  shows "\<exists>e. (e = KeyError \<or> e = IndexError)
           \<and> get_battery_data self =
               (Inl e, self\<lparr>sent := sent self
                                @ map (command_frame 0x5f) (take (Suc (length pre)) [0, 1, 2, 3]),
                             pending := rest\<rparr>)"
proof -
  let ?L = "[0, 1, 2, 3 :: int]"
  let ?n = "length pre"
  let ?self1 = "self\<lparr>sent := sent self @ map (command_frame 0x5f) (take ?n ?L),
                       pending := r # rest\<rparr>"
  have n: "?n < length ?L" using assms(2) by simp
  have split: "?L = take ?n ?L @ (?L ! ?n) # drop (Suc ?n) ?L"
    using id_take_nth_drop[OF n] .
  have mem: "?L ! ?n \<in> set ?L" using n by (intro nth_mem)
  have s: "- 128 \<le> ?L ! ?n" "?L ! ?n \<le> 32" using mem by auto
  have a: "length pre = length (take ?n ?L)" using assms(2) by simp
  have b: "\<forall>s\<in>set (take ?n ?L). - 128 \<le> s \<and> s \<le> 32"
    using set_take_subset[of ?n ?L] by auto
  from battery_loop_prefix[OF a b assms(3) assms(1), of "(?L ! ?n) # drop (Suc ?n) ?L" "[]"]
  obtain bs where
    loop: "battery_loop (take ?n ?L @ (?L ! ?n) # drop (Suc ?n) ?L) [] self =
             battery_loop ((?L ! ?n) # drop (Suc ?n) ?L) bs ?self1"
    by auto
  have p1: "pending ?self1 = r # rest" by simp
  from unpack_battery_unmapped[OF assms(4,6)] obtain e where
    e: "e = KeyError \<or> e = IndexError" "unpack_battery r = Inl e" by auto
  have step: "battery_loop ((?L ! ?n) # drop (Suc ?n) ?L) bs ?self1 =
          (Inl e, ?self1\<lparr>sent := sent ?self1 @ [command_frame 0x5f (?L ! ?n)], pending := rest\<rparr>)"
    using battery_step[OF p1 assms(4) s] assms(5) e(2) by simp
  have t: "take (Suc ?n) ?L = take ?n ?L @ [?L ! ?n]"
    using take_Suc_conv_app_nth[OF n] .
  have "get_battery_data self = battery_loop (take ?n ?L @ (?L ! ?n) # drop (Suc ?n) ?L) [] self"
    unfolding get_battery_data_def using split by simp
  also have "\<dots> = (Inl e, ?self1\<lparr>sent := sent ?self1 @ [command_frame 0x5f (?L ! ?n)], pending := rest\<rparr>)"
    using loop step by simp
  also have "\<dots> = (Inl e, self\<lparr>sent := sent self @ map (command_frame 0x5f) (take (Suc ?n) ?L),
                             pending := rest\<rparr>)"
    unfolding t by simp
  finally show ?thesis using e(1) by blast
qed

lemma progress_scan_total:
  assumes "pending self = rs @ rest" and "length rs = 4" and "\<forall>q\<in>set rs. length q = 64"
  shows "\<exists>ps. get_charging_progress All self =
                (Inr ps, self\<lparr>sent := sent self @ map (command_frame 0x55) [0, 1, 2, 3],
                              pending := rest\<rparr>)
              \<and> map Inr ps = map unpack_progress (filter checksum_ok rs)
              \<and> map ProgressInfo.type ps = map (\<lambda>q. uint (q ! 2)) (filter checksum_ok rs)"
proof -
  have a: "length rs = length [0, 1, 2, 3 :: int]" using assms(2) by simp
  have b: "\<forall>s\<in>set [0, 1, 2, 3 :: int]. - 128 \<le> s \<and> s \<le> 42" by simp
  from progress_loop_prefix[OF a b assms(3) assms(1), of "[]" "[]"]
  obtain ps where ps: "map Inr ps = map unpack_progress (filter checksum_ok rs)"
    "progress_loop [0, 1, 2, 3] [] self =
       progress_loop [] ps (self\<lparr>sent := sent self @ map (command_frame 0x55) [0, 1, 2, 3],
                                pending := rest\<rparr>)"
    by auto
  have ty: "map_sum id ProgressInfo.type (unpack_progress q) = Inr (uint (q ! 2))"
    if "q \<in> set (filter checksum_ok rs)" for q
  proof -
    have "length q = 64" using that assms(3) by simp
    from unpack_progress_fields[OF this] show ?thesis by (auto simp: unpack_B_def)
  qed
  have "map Inr (map ProgressInfo.type ps) = map (map_sum id ProgressInfo.type) (map Inr ps)"
    by simp
  also have "\<dots> = map (map_sum id ProgressInfo.type) (map unpack_progress (filter checksum_ok rs))"
    by (simp only: ps(1))
  also have "\<dots> = map Inr (map (\<lambda>q. uint (q ! 2)) (filter checksum_ok rs))"
    using ty by (simp add: comp_def)
  finally have "map ProgressInfo.type ps = map (\<lambda>q. uint (q ! 2)) (filter checksum_ok rs)"
    by (simp only: inj_map_eq_map[OF inj_Inr])
  then show ?thesis
    using ps by (intro exI[where x = ps]) (simp add: get_charging_progress_def)
qed

text \<open>
  C7. \<^verbatim>\<open>get_battery_data\<close> sends the charger-config command for the slots 0, 1, 2, 3
  in this order and reads one response after each. Given four responses of 64 bytes, a
  response whose last byte is not the checksum of its first 63 bytes is skipped without
  raising. When every response that passes the check carries mapped codes, the call returns
  the decoded records of the responses that pass it, in order: at most four, the skipped
  slots absent. When some response that passes the check carries a code without a mapping,
  the call raises a key error or an index error instead and returns no list, skipped slots
  or not.
\<close>

theorem battery_scan_skips_bad_checksums:
  assumes "pending self = rs @ rest" and "length rs = 4" and "\<forall>r\<in>set rs. length r = 64"
  shows "((\<forall>r\<in>set rs. checksum_ok r \<longrightarrow> \<not> has_unmapped_code r) \<longrightarrow>
            (\<exists>bs. get_battery_data self =
                    (Inr bs, self\<lparr>sent := sent self @ map (command_frame 0x5f) [0, 1, 2, 3],
                                  pending := rest\<rparr>)
                  \<and> map Inr bs = map unpack_battery (filter checksum_ok rs)
                  \<and> length bs \<le> 4))
       \<and> ((\<exists>r\<in>set rs. checksum_ok r \<and> has_unmapped_code r) \<longrightarrow>
            (\<exists>e self'. (e = KeyError \<or> e = IndexError)
                  \<and> get_battery_data self = (Inl e, self')))"
proof (intro conjI impI)
  assume m: "\<forall>r\<in>set rs. checksum_ok r \<longrightarrow> \<not> has_unmapped_code r"
  have a: "length rs = length [0, 1, 2, 3 :: int]" using assms(2) by simp
  have b: "\<forall>s\<in>set [0, 1, 2, 3 :: int]. - 128 \<le> s \<and> s \<le> 32" by simp
  have c: "\<forall>r\<in>set rs. length r = 64 \<and> (checksum_ok r \<longrightarrow> \<not> has_unmapped_code r)"
    using assms(3) m by blast
  from battery_loop_prefix[OF a b c assms(1), of "[]" "[]"]
  obtain bs where bs: "map Inr bs = map unpack_battery (filter checksum_ok rs)"
    "battery_loop [0, 1, 2, 3] [] self =
       battery_loop [] bs (self\<lparr>sent := sent self @ map (command_frame 0x5f) [0, 1, 2, 3],
                                pending := rest\<rparr>)"
    by auto
  have "length bs = length (map unpack_battery (filter checksum_ok rs))"
    using bs(1) by (metis length_map)
  then have "length bs \<le> 4"
    using assms(2) length_filter_le[of checksum_ok rs] by simp
  then show "\<exists>bs. get_battery_data self =
                    (Inr bs, self\<lparr>sent := sent self @ map (command_frame 0x5f) [0, 1, 2, 3],
                                  pending := rest\<rparr>)
                  \<and> map Inr bs = map unpack_battery (filter checksum_ok rs)
                  \<and> length bs \<le> 4"
    using bs by (intro exI[where x = bs]) (simp add: get_battery_data_def)
next
  assume "\<exists>r\<in>set rs. checksum_ok r \<and> has_unmapped_code r"
  from split_list_first_prop[OF this] obtain pre r post where
    sp: "rs = pre @ r # post" "checksum_ok r \<and> has_unmapped_code r"
      "\<forall>y\<in>set pre. \<not> (checksum_ok y \<and> has_unmapped_code y)"
    by blast
  have p: "pending self = pre @ r # (post @ rest)" using assms(1) sp(1) by simp
  have n: "length pre < 4" using assms(2) sp(1) by simp
  have g: "\<forall>p\<in>set pre. length p = 64 \<and> (checksum_ok p \<longrightarrow> \<not> has_unmapped_code p)"
    using assms(3) sp(1,3) by auto
  have l: "length r = 64" using assms(3) sp(1) by simp
  from battery_scan_aborts[OF p n g l] sp(2)
  show "\<exists>e self'. (e = KeyError \<or> e = IndexError) \<and> get_battery_data self = (Inl e, self')"
    by blast
qed

text \<open>
  Four responses with mapped codes, the second with a wrong checksum byte: the call returns
  the three other batteries. Four responses of which the first has a wrong checksum byte and
  the second the chemistry code 7: the call raises.
\<close>

theorem battery_scan_skips_bad_checksums_witness:
  "map_sum id (map Battery.type)
     (fst (get_battery_data
        (device [battery_frame 0 0, battery_frame 1 9, battery_frame 3 3, battery_frame 2 2])))
     = Inr [''LiIon'', ''NiMH'', ''LiHV'']
   \<and> isl (fst (get_battery_data
        (device [battery_frame 1 9, battery_frame 7 7, battery_frame 0 0, battery_frame 0 0])))"
proof -
  let ?rs = "[battery_frame 0 0, battery_frame 1 9, battery_frame 3 3, battery_frame 2 2]"
  let ?qs = "[battery_frame 1 9, battery_frame 7 7, battery_frame 0 0, battery_frame 0 0]"
  have a: "pending (device ?rs) = ?rs @ []" by (simp add: device_def)
  have b: "length ?rs = 4" by simp
  have c: "\<forall>r\<in>set ?rs. length r = 64" by (simp add: battery_frame_length)
  have d: "\<forall>r\<in>set ?rs. checksum_ok r \<longrightarrow> \<not> has_unmapped_code r"
    by (simp add: battery_frame_checksum_ok battery_frame_unmapped battery_type_values)
  from battery_scan_skips_bad_checksums[OF a b c, THEN conjunct1, THEN mp, OF d] obtain bs where
    bs0: "get_battery_data (device ?rs) =
            (Inr bs, (device ?rs)\<lparr>sent := sent (device ?rs) @ map (command_frame 0x5f) [0, 1, 2, 3],
                                   pending := []\<rparr>)"
      and bs2: "map Inr bs = map unpack_battery (filter checksum_ok ?rs)"
    by blast
  have bs1: "fst (get_battery_data (device ?rs)) = Inr bs" unfolding bs0 by simp
  have "map Inr (map Battery.type bs) = map (map_sum id Battery.type) (map Inr bs)"
    by simp
  also have "\<dots> = map (map_sum id Battery.type) (map unpack_battery (filter checksum_ok ?rs))"
    by (simp only: bs2)
  also have "\<dots> = map Inr [''LiIon'', ''NiMH'', ''LiHV'']"
    by (simp add: battery_frame_checksum_ok battery_frame_type battery_type_values)
  finally have "map Battery.type bs = [''LiIon'', ''NiMH'', ''LiHV'']"
    by (simp only: inj_map_eq_map[OF inj_Inr])
  then have x: "map_sum id (map Battery.type) (fst (get_battery_data (device ?rs)))
     = Inr [''LiIon'', ''NiMH'', ''LiHV'']" using bs1 by simp
  have a': "pending (device ?qs) = ?qs @ []" by (simp add: device_def)
  have b': "length ?qs = 4" by simp
  have c': "\<forall>r\<in>set ?qs. length r = 64" by (simp add: battery_frame_length)
  have d': "\<exists>r\<in>set ?qs. checksum_ok r \<and> has_unmapped_code r"
    by (simp add: battery_frame_checksum_ok battery_frame_unmapped battery_type_values)
  from battery_scan_skips_bad_checksums[OF a' b' c', THEN conjunct2, THEN mp, OF d'] obtain e s' where
    "get_battery_data (device ?qs) = (Inl e, s')" by blast
  then have y: "isl (fst (get_battery_data (device ?qs)))" by simp
  show ?thesis using x y by simp
qed

text \<open>
  The response for slot 0 has a wrong checksum byte and is skipped; the response for slot 1
  passes the check with the chemistry code 7, and the responses for the slots 2 and 3 are
  valid. The call raises the key error after the second read and returns no list, so the
  skipped slot is not simply absent from a result that holds the valid slots.
\<close>

theorem battery_scan_skips_bad_checksums_counterexample:
  "\<not> checksum_ok (battery_frame 1 9)
   \<and> get_battery_data
       (device [battery_frame 1 9, battery_frame 7 7, battery_frame 0 0, battery_frame 0 0])
     = (Inl KeyError,
        \<lparr>sent = [command_frame 0x5f 0, command_frame 0x5f 1],
         pending = [battery_frame 0 0, battery_frame 0 0],
         machine_info = None\<rparr>)"
proof -
  let ?qs = "[battery_frame 1 9, battery_frame 7 7, battery_frame 0 0, battery_frame 0 0]"
  let ?s1 = "(device ?qs)\<lparr>sent := sent (device ?qs) @ [command_frame 0x5f 0],
                           pending := [battery_frame 7 7, battery_frame 0 0, battery_frame 0 0]\<rparr>"
  have n: "\<not> checksum_ok (battery_frame 1 9)" by (simp add: battery_frame_checksum_ok)
  have p0: "pending (device ?qs) = battery_frame 1 9 # [battery_frame 7 7, battery_frame 0 0, battery_frame 0 0]"
    by (simp add: device_def)
  have p1: "pending ?s1 = battery_frame 7 7 # [battery_frame 0 0, battery_frame 0 0]" by simp
  have s0: "- 128 \<le> (0::int)" "(0::int) \<le> 32" by simp_all
  have s1: "- 128 \<le> (1::int)" "(1::int) \<le> 32" by simp_all
  have "get_battery_data (device ?qs) = battery_loop [1, 2, 3] [] ?s1"
    using battery_step[OF p0 battery_frame_length s0, of "[1, 2, 3]" "[]"] n
    by (simp add: get_battery_data_def)
  also have "\<dots> = (Inl KeyError, ?s1\<lparr>sent := sent ?s1 @ [command_frame 0x5f 1],
                                      pending := [battery_frame 0 0, battery_frame 0 0]\<rparr>)"
    using battery_step[OF p1 battery_frame_length s1, of "[2, 3]" "[]"]
    by (simp add: battery_frame_checksum_ok battery_frame_key_error battery_type_values)
  finally show ?thesis using n by (simp add: device_def)
qed



text \<open>
  C6. A battery response that passes the check but carries a chemistry, mode or cycle-mode
  code that is no key of its table, or a temperature-unit code that is no index of the
  tuple, makes \<^verbatim>\<open>get_battery_data\<close> raise (a key error or an index error): the whole
  call is aborted, no list is returned, and the slots after it are not queried.
  \<^verbatim>\<open>get_charging_progress\<close> looks no code up: for four responses of 64 bytes it
  returns the record of every response that passes the check, with the chemistry code as the
  raw integer of the byte at offset 2, whatever that is.
\<close>

theorem unmapped_code_policy:
  assumes "pending self = pre @ r # rest" and "length pre < 4"
    and "\<forall>p\<in>set pre. length p = 64 \<and> (checksum_ok p \<longrightarrow> \<not> has_unmapped_code p)"
    and "length r = 64" and "checksum_ok r" and "has_unmapped_code r"
    and "pending self' = rs @ rest'" and "length rs = 4" and "\<forall>q\<in>set rs. length q = 64"
  shows "(\<exists>e. (e = KeyError \<or> e = IndexError)
            \<and> get_battery_data self =
                (Inl e, self\<lparr>sent := sent self
                                 @ map (command_frame 0x5f) (take (Suc (length pre)) [0, 1, 2, 3]),
                              pending := rest\<rparr>))
       \<and> (\<exists>ps. get_charging_progress All self' =
                 (Inr ps, self'\<lparr>sent := sent self' @ map (command_frame 0x55) [0, 1, 2, 3],
                                pending := rest'\<rparr>)
               \<and> map Inr ps = map unpack_progress (filter checksum_ok rs)
               \<and> map ProgressInfo.type ps = map (\<lambda>q. uint (q ! 2)) (filter checksum_ok rs))"
  using battery_scan_aborts[OF assms(1-6)] progress_scan_total[OF assms(7-9)] by blast

text \<open>
  A battery scan whose second response carries the chemistry code 7, and a progress scan
  whose responses carry the chemistry codes 9, 9 (wrong checksum), 200 and 0.
\<close>

theorem unmapped_code_policy_witness:
  "(fst (get_battery_data
      (device [battery_frame 0 0, battery_frame 7 7, battery_frame 0 0, battery_frame 0 0]))
      = Inl KeyError
    \<or> fst (get_battery_data
      (device [battery_frame 0 0, battery_frame 7 7, battery_frame 0 0, battery_frame 0 0]))
      = Inl IndexError)
   \<and> map_sum id (map ProgressInfo.type)
        (fst (get_charging_progress All
           (device [progress_frame 9 78, progress_frame 9 0, progress_frame 200 13,
                    progress_frame 0 69])))
      = Inr [9, 200, 0]"
proof -
  let ?pre = "[battery_frame 0 0]"
  let ?r = "battery_frame 7 7"
  let ?rest = "[battery_frame 0 0, battery_frame 0 0]"
  let ?rs = "[progress_frame 9 78, progress_frame 9 0, progress_frame 200 13, progress_frame 0 69]"
  have a: "pending (device (?pre @ ?r # ?rest)) = ?pre @ ?r # ?rest" by (simp add: device_def)
  have b: "length ?pre < 4" by simp
  have c: "\<forall>p\<in>set ?pre. length p = 64 \<and> (checksum_ok p \<longrightarrow> \<not> has_unmapped_code p)"
    by (simp add: battery_frame_length battery_frame_checksum_ok battery_frame_unmapped
        battery_type_values)
  have d: "length ?r = 64" by (rule battery_frame_length)
  have e: "checksum_ok ?r" by (simp add: battery_frame_checksum_ok)
  have f: "has_unmapped_code ?r" by (simp add: battery_frame_unmapped battery_type_values)
  have g: "pending (device ?rs) = ?rs @ []" by (simp add: device_def)
  have h: "length ?rs = 4" by simp
  have i: "\<forall>q\<in>set ?rs. length q = 64" by (simp add: progress_frame_length)
  have ok: "filter checksum_ok ?rs = [progress_frame 9 78, progress_frame 200 13, progress_frame 0 69]"
    by (simp add: progress_frame_def checksum_ok_def)
  from unmapped_code_policy[OF a b c d e f g h i] obtain err ps s1 s2 where
    r: "err = KeyError \<or> err = IndexError"
      "get_battery_data (device (?pre @ ?r # ?rest)) = (Inl err, s1)"
      "get_charging_progress All (device ?rs) = (Inr ps, s2)"
      "map ProgressInfo.type ps = map (\<lambda>q. uint (q ! 2)) (filter checksum_ok ?rs)"
    by blast
  have "map ProgressInfo.type ps = [9, 200, 0]"
    unfolding r(4) ok by (simp add: progress_frame_def)
  then show ?thesis using r(1,2,3) by auto
qed

text \<open>
  With the chemistry code 7 in the response for slot 0 and three valid responses behind it,
  \<^verbatim>\<open>get_battery_data\<close> raises the key error after the first read and the three other
  responses stay unread, instead of returning the three other slots. A progress response
  with the chemistry code 9, which has no mapping, is decoded and returned with the code 9.
\<close>

theorem unmapped_code_policy_counterexample:
  "get_battery_data
     (device [battery_frame 7 7, battery_frame 0 0, battery_frame 0 0, battery_frame 0 0])
     = (Inl KeyError,
        \<lparr>sent = [command_frame 0x5f 0],
         pending = [battery_frame 0 0, battery_frame 0 0, battery_frame 0 0],
         machine_info = None\<rparr>)
   \<and> BATTERY_TYPE 9 = None
   \<and> map_sum id (map ProgressInfo.type)
        (fst (get_charging_progress (Slot 0) (device [progress_frame 9 78])))
      = Inr [9]"
proof -
  let ?r = "battery_frame 7 7"
  let ?rest = "[battery_frame 0 0, battery_frame 0 0, battery_frame 0 0]"
  have p: "pending (device (?r # ?rest)) = ?r # ?rest" by (simp add: device_def)
  have l: "length ?r = 64" by (rule battery_frame_length)
  have s: "- 128 \<le> (0::int)" "(0::int) \<le> 32" by simp_all
  have x: "get_battery_data (device (?r # ?rest)) =
             (Inl KeyError, \<lparr>sent = [command_frame 0x5f 0], pending = ?rest, machine_info = None\<rparr>)"
    using battery_step[OF p l s, of "[1, 2, 3]" "[]"]
    by (simp add: get_battery_data_def battery_frame_checksum_ok battery_frame_key_error
        battery_type_values device_def)
  let ?q = "progress_frame 9 78"
  have a: "pending (device [?q]) = ?q # []" by (simp add: device_def)
  have b: "length ?q = 64" by (rule progress_frame_length)
  have c: "checksum_ok ?q" by (rule progress_frame_9_ok)
  have d: "- 128 \<le> (0::int)" "(0::int) \<le> 42" by simp_all
  from unpack_progress_fields[OF b] obtain pi where
    pi: "unpack_progress ?q = Inr pi" "ProgressInfo.type pi = unpack_B ?q 2" by blast
  have y: "map_sum id (map ProgressInfo.type)
        (fst (get_charging_progress (Slot 0) (device [?q]))) = Inr [9]"
    using progress_step[OF a b d, of "[]" "[]"] c pi
    by (simp add: get_charging_progress_def progress_frame_fields)
  show ?thesis using x y by (simp add: battery_type_values)
qed

end
